theory Spec2Isabelle
  imports Main "HOL-Library.Word"
begin

section \<open>Caveat expressions\<close>

text \<open>
  Modelled from the spec: the protobuf message types of \<^verbatim>\<open>pkg/proto\<close> are not part of
  the sources at hand. A contextualized caveat is "an identifier plus a bag of bound context
  values"; a caveat expression is either a leaf holding a contextualized caveat or an
  operation node with an operator and an ordered sequence of children. The children are Go
  pointers (\<^verbatim>\<open>[]*v1.CaveatExpression\<close>), so a child may be nil: they are options here.
  A nil \<^verbatim>\<open>*v1.CaveatExpression\<close> is \<open>None\<close> throughout.
\<close>

datatype ContextualizedCaveat =
  ContextualizedCaveat (CaveatName: string) (Context: "(string \<times> string) list")

datatype CaveatOperation_Operation =
  CaveatOperation_OR | CaveatOperation_AND | CaveatOperation_NOT

datatype CaveatExpression =
    CaveatExpression_Caveat ContextualizedCaveat
  | CaveatExpression_Operation CaveatOperation_Operation "CaveatExpression option list"

text \<open>
  A Go panic is an error value: \<open>Panic\<close> is a call of \<^verbatim>\<open>panic\<close> with its message,
  \<open>NilDereference\<close> the runtime's panic on reading a field through a nil pointer.
\<close>

datatype error = Panic string | NilDereference

definition wrapCaveat :: "ContextualizedCaveat option \<Rightarrow> CaveatExpression option" where
  "wrapCaveat caveat =
     (case caveat of
        None \<Rightarrow> None
      | Some c \<Rightarrow> Some (CaveatExpression_Caveat c))"

definition caveatOr ::
  "CaveatExpression option \<Rightarrow> CaveatExpression option \<Rightarrow> CaveatExpression option" where
  "caveatOr first second =
     (if first = None then second
      else if second = None then first
      else Some (CaveatExpression_Operation CaveatOperation_OR [first, second]))"

definition caveatAnd ::
  "CaveatExpression option \<Rightarrow> CaveatExpression option \<Rightarrow> CaveatExpression option" where
  "caveatAnd first second =
     (if first = None then second
      else if second = None then first
      else Some (CaveatExpression_Operation CaveatOperation_AND [first, second]))"

text \<open>\<^verbatim>\<open>invert\<close> allocates a NOT node around whatever pointer it is given, nil included.\<close>

definition invert :: "CaveatExpression option \<Rightarrow> CaveatExpression option" where
  "invert ce = Some (CaveatExpression_Operation CaveatOperation_NOT [ce])"

text \<open>
  \<^verbatim>\<open>caveatSub\<close> builds the inversion first, returns it when the minuend is nil, and
  only then looks at the subtrahend; the panic is the \<open>Inl\<close> branch.
\<close>

definition caveatSub ::
  "CaveatExpression option \<Rightarrow> CaveatExpression option \<Rightarrow> error + CaveatExpression option" where
  "caveatSub caveat subtraction =
     (let inversion = invert subtraction in
      if caveat = None then Inr inversion
      else if subtraction = None then Inl (Panic ''subtraction caveat expression is nil'')
      else Inr (Some (CaveatExpression_Operation CaveatOperation_AND [caveat, inversion])))"


section \<open>Check results and membership sets\<close>

datatype DispatchCheckResponse_Membership =
  DispatchCheckResponse_MEMBER | DispatchCheckResponse_CAVEATED_MEMBER

text \<open>
  Modelled from the spec: a resource check result is the pair of a membership tag and an
  optional caveat expression (the generated message type is not among the sources).
\<close>

record ResourceCheckResult =
  Membership :: DispatchCheckResponse_Membership
  Expression :: "CaveatExpression option"

text \<open>
  A Go map is a partial function on its keys. \<^verbatim>\<open>membersByID\<close> maps a resource id to a
  pointer, so a lookup has three outcomes: \<open>None\<close> (the id is not a key), \<open>Some None\<close>
  (a key with a nil expression: a determined member) and \<open>Some (Some e)\<close>.

  \<^verbatim>\<open>CheckResultsMap\<close> is \<^verbatim>\<open>map[string]*v1.DispatchCheckResponse_ResourceCheckResult\<close>: its
  values are pointers too, and a key may be held with a nil one (\<open>Some None\<close>). The loops
  read \<^verbatim>\<open>details.Expression\<close> as a plain field, which panics on a nil \<^verbatim>\<open>details\<close>.
\<close>

type_synonym CheckResultsMap = "string \<rightharpoonup> ResourceCheckResult option"

record MembershipSet =
  membersByID :: "string \<rightharpoonup> CaveatExpression option"
  hasDeterminedMember :: bool

text \<open>
  Modelled from the spec: of the relation tuple that \<^verbatim>\<open>AddMemberViaRelationship\<close>
  receives, the code reads the caveat only ("parent-caveat?"); the tuple type itself is
  declared outside the sources. The tuple is the relationship that was followed, never nil.
\<close>

record RelationTuple =
  Caveat :: "ContextualizedCaveat option"

definition NewMembershipSet :: MembershipSet where
  "NewMembershipSet = \<lparr>membersByID = Map.empty, hasDeterminedMember = False\<rparr>"

definition addMember ::
  "MembershipSet \<Rightarrow> string \<Rightarrow> CaveatExpression option \<Rightarrow> MembershipSet" where
  "addMember ms resourceID caveatExpr =
     (case membersByID ms resourceID of
        None \<Rightarrow>
          ms\<lparr>hasDeterminedMember := hasDeterminedMember ms \<or> caveatExpr = None,
             membersByID := (membersByID ms)(resourceID \<mapsto> caveatExpr)\<rparr>
      | Some existing \<Rightarrow>
          if existing = None then ms
          else if caveatExpr = None then
            ms\<lparr>hasDeterminedMember := True,
               membersByID := (membersByID ms)(resourceID \<mapsto> None)\<rparr>
          else ms\<lparr>membersByID := (membersByID ms)(resourceID \<mapsto> caveatOr existing caveatExpr)\<rparr>)"

definition AddDirectMember ::
  "MembershipSet \<Rightarrow> string \<Rightarrow> ContextualizedCaveat option \<Rightarrow> MembershipSet" where
  "AddDirectMember ms resourceID caveat = addMember ms resourceID (wrapCaveat caveat)"

definition AddMemberViaRelationship ::
  "MembershipSet \<Rightarrow> string \<Rightarrow> CaveatExpression option \<Rightarrow> RelationTuple \<Rightarrow> MembershipSet" where
  "AddMemberViaRelationship ms resourceID resourceCaveatExpression parentRelationship =
     (let intersection = caveatAnd (wrapCaveat (Caveat parentRelationship)) resourceCaveatExpression
      in addMember ms resourceID intersection)"

text \<open>
  Go's \<^verbatim>\<open>range\<close> over a map visits every key once, in an order the language leaves
  open. Each loop over a map therefore takes the order of the visit as an argument, a list of
  keys; \<open>range_order ks m\<close> says that \<open>ks\<close> is such a visit of \<open>m\<close>. A key that is no longer
  in the map when its turn comes is skipped, which is what Go does with an entry deleted
  before it is reached.
\<close>

definition range_order :: "'k list \<Rightarrow> ('k \<rightharpoonup> 'v) \<Rightarrow> bool" where
  "range_order ks m = (distinct ks \<and> set ks = dom m)"

fun UnionWith_range ::
  "string list \<Rightarrow> CheckResultsMap \<Rightarrow> MembershipSet \<Rightarrow> error + MembershipSet" where
  "UnionWith_range [] resultsMap ms = Inr ms"
| "UnionWith_range (resourceID # rest) resultsMap ms =
     (case resultsMap resourceID of
        None \<Rightarrow> UnionWith_range rest resultsMap ms
      | Some details \<Rightarrow>
          (case details of
             None \<Rightarrow> Inl NilDereference
           | Some d \<Rightarrow>
               UnionWith_range rest resultsMap (addMember ms resourceID (Expression d))))"

definition UnionWith ::
  "string list \<Rightarrow> MembershipSet \<Rightarrow> CheckResultsMap \<Rightarrow> error + MembershipSet" where
  "UnionWith order ms resultsMap = UnionWith_range order resultsMap ms"

text \<open>
  \<^verbatim>\<open>IntersectWith\<close> has two loops: the first ranges over \<^verbatim>\<open>membersByID\<close> and deletes,
  looking only at whether the results map has the key; the second ranges over the results
  map. For an id the set holds, the second loop reads \<^verbatim>\<open>details.Expression\<close> either in
  its test (when the stored expression is nil) or in the call of \<^verbatim>\<open>caveatAnd\<close> (when it is
  not), in both cases before it stores anything: a nil \<^verbatim>\<open>details\<close> panics there.
\<close>

fun IntersectWith_delete ::
  "string list \<Rightarrow> CheckResultsMap \<Rightarrow> MembershipSet \<Rightarrow> MembershipSet" where
  "IntersectWith_delete [] resultsMap ms = ms"
| "IntersectWith_delete (resourceID # rest) resultsMap ms =
     (case membersByID ms resourceID of
        None \<Rightarrow> IntersectWith_delete rest resultsMap ms
      | Some _ \<Rightarrow>
          (case resultsMap resourceID of
             None \<Rightarrow>
               IntersectWith_delete rest resultsMap
                 (ms\<lparr>membersByID := (membersByID ms)(resourceID := None)\<rparr>)
           | Some _ \<Rightarrow> IntersectWith_delete rest resultsMap ms))"

fun IntersectWith_range ::
  "string list \<Rightarrow> CheckResultsMap \<Rightarrow> MembershipSet \<Rightarrow> error + MembershipSet" where
  "IntersectWith_range [] resultsMap ms = Inr ms"
| "IntersectWith_range (resourceID # rest) resultsMap ms =
     (case resultsMap resourceID of
        None \<Rightarrow> IntersectWith_range rest resultsMap ms
      | Some details \<Rightarrow>
          (case membersByID ms resourceID of
             None \<Rightarrow> IntersectWith_range rest resultsMap ms
           | Some existing \<Rightarrow>
               (case details of
                  None \<Rightarrow> Inl NilDereference
                | Some d \<Rightarrow>
                    if existing = None \<and> Expression d = None then
                      IntersectWith_range rest resultsMap (ms\<lparr>hasDeterminedMember := True\<rparr>)
                    else
                      IntersectWith_range rest resultsMap
                        (ms\<lparr>membersByID :=
                             (membersByID ms)(resourceID \<mapsto> caveatAnd existing (Expression d))\<rparr>))))"

definition IntersectWith ::
  "string list \<Rightarrow> string list \<Rightarrow> MembershipSet \<Rightarrow> CheckResultsMap \<Rightarrow>
   error + MembershipSet" where
  "IntersectWith memberOrder resultOrder ms resultsMap =
     (let ms1 = IntersectWith_delete memberOrder resultsMap ms;
          ms2 = ms1\<lparr>hasDeterminedMember := False\<rparr>
      in IntersectWith_range resultOrder resultsMap ms2)"

text \<open>
  \<^verbatim>\<open>Subtract\<close> ranges over \<^verbatim>\<open>membersByID\<close> while deleting and overwriting the entry
  under visit. For an id that the results map has, the first thing it does is read
  \<^verbatim>\<open>details.Expression\<close>, which panics on a nil \<^verbatim>\<open>details\<close>. A panic of \<^verbatim>\<open>caveatSub\<close>
  ends the loop with the error.
\<close>

fun Subtract_range ::
  "string list \<Rightarrow> CheckResultsMap \<Rightarrow> MembershipSet \<Rightarrow> error + MembershipSet" where
  "Subtract_range [] resultsMap ms = Inr ms"
| "Subtract_range (resourceID # rest) resultsMap ms =
     (case membersByID ms resourceID of
        None \<Rightarrow> Subtract_range rest resultsMap ms
      | Some expression \<Rightarrow>
          (case resultsMap resourceID of
             Some details \<Rightarrow>
               (case details of
                  None \<Rightarrow> Inl NilDereference
                | Some d \<Rightarrow>
                    if Expression d = None then
                      Subtract_range rest resultsMap
                        (ms\<lparr>membersByID := (membersByID ms)(resourceID := None)\<rparr>)
                    else
                      (case caveatSub expression (Expression d) of
                         Inl e \<Rightarrow> Inl e
                       | Inr v \<Rightarrow>
                           Subtract_range rest resultsMap
                             (ms\<lparr>membersByID := (membersByID ms)(resourceID \<mapsto> v)\<rparr>)))
           | None \<Rightarrow>
               if expression = None then
                 Subtract_range rest resultsMap (ms\<lparr>hasDeterminedMember := True\<rparr>)
               else Subtract_range rest resultsMap ms))"

definition Subtract ::
  "string list \<Rightarrow> MembershipSet \<Rightarrow> CheckResultsMap \<Rightarrow> error + MembershipSet" where
  "Subtract order ms resultsMap =
     Subtract_range order resultsMap (ms\<lparr>hasDeterminedMember := False\<rparr>)"

text \<open>
  The same loop with a log: \<open>Subtract_range_calls\<close> is \<open>Subtract_range\<close> equation by
  equation, and next to each call of \<^verbatim>\<open>caveatSub\<close> it appends the two arguments of that
  call to the list it carries. It returns the log with the result.
\<close>

type_synonym caveatSub_call = "CaveatExpression option \<times> CaveatExpression option"

fun Subtract_range_calls ::
  "string list \<Rightarrow> CheckResultsMap \<Rightarrow> MembershipSet \<Rightarrow> caveatSub_call list \<Rightarrow>
   caveatSub_call list \<times> (error + MembershipSet)" where
  "Subtract_range_calls [] resultsMap ms calls = (calls, Inr ms)"
| "Subtract_range_calls (resourceID # rest) resultsMap ms calls =
     (case membersByID ms resourceID of
        None \<Rightarrow> Subtract_range_calls rest resultsMap ms calls
      | Some expression \<Rightarrow>
          (case resultsMap resourceID of
             Some details \<Rightarrow>
               (case details of
                  None \<Rightarrow> (calls, Inl NilDereference)
                | Some d \<Rightarrow>
                    if Expression d = None then
                      Subtract_range_calls rest resultsMap
                        (ms\<lparr>membersByID := (membersByID ms)(resourceID := None)\<rparr>) calls
                    else
                      (case caveatSub expression (Expression d) of
                         Inl e \<Rightarrow> (calls @ [(expression, Expression d)], Inl e)
                       | Inr v \<Rightarrow>
                           Subtract_range_calls rest resultsMap
                             (ms\<lparr>membersByID := (membersByID ms)(resourceID \<mapsto> v)\<rparr>)
                             (calls @ [(expression, Expression d)])))
           | None \<Rightarrow>
               if expression = None then
                 Subtract_range_calls rest resultsMap (ms\<lparr>hasDeterminedMember := True\<rparr>) calls
               else Subtract_range_calls rest resultsMap ms calls))"

definition Subtract_calls ::
  "string list \<Rightarrow> MembershipSet \<Rightarrow> CheckResultsMap \<Rightarrow>
   caveatSub_call list \<times> (error + MembershipSet)" where
  "Subtract_calls order ms resultsMap =
     Subtract_range_calls order resultsMap (ms\<lparr>hasDeterminedMember := False\<rparr>) []"

definition IsEmpty :: "MembershipSet \<Rightarrow> bool" where
  "IsEmpty ms = (membersByID ms = Map.empty)"

definition HasDeterminedMember :: "MembershipSet \<Rightarrow> bool" where
  "HasDeterminedMember ms = hasDeterminedMember ms"

fun AsCheckResultsMap_range ::
  "string list \<Rightarrow> MembershipSet \<Rightarrow> CheckResultsMap \<Rightarrow> CheckResultsMap" where
  "AsCheckResultsMap_range [] ms resultsMap = resultsMap"
| "AsCheckResultsMap_range (resourceID # rest) ms resultsMap =
     (case membersByID ms resourceID of
        None \<Rightarrow> AsCheckResultsMap_range rest ms resultsMap
      | Some caveat \<Rightarrow>
          (let membership =
                 (if caveat \<noteq> None then DispatchCheckResponse_CAVEATED_MEMBER
                  else DispatchCheckResponse_MEMBER)
           in AsCheckResultsMap_range rest ms
                (resultsMap(resourceID \<mapsto>
                   Some \<lparr>Membership = membership, Expression = caveat\<rparr>))))"

definition AsCheckResultsMap :: "string list \<Rightarrow> MembershipSet \<Rightarrow> CheckResultsMap" where
  "AsCheckResultsMap order ms = AsCheckResultsMap_range order ms Map.empty"

fun membershipSetFromMap_range ::
  "string list \<Rightarrow> (string \<rightharpoonup> CaveatExpression option) \<Rightarrow> MembershipSet \<Rightarrow> MembershipSet" where
  "membershipSetFromMap_range [] mp ms = ms"
| "membershipSetFromMap_range (resourceID # rest) mp ms =
     (case mp resourceID of
        None \<Rightarrow> membershipSetFromMap_range rest mp ms
      | Some result \<Rightarrow> membershipSetFromMap_range rest mp (addMember ms resourceID result))"

definition membershipSetFromMap ::
  "string list \<Rightarrow> (string \<rightharpoonup> CaveatExpression option) \<Rightarrow> MembershipSet" where
  "membershipSetFromMap order mp = membershipSetFromMap_range order mp NewMembershipSet"


section \<open>The rules of the membership set, as the specification words them\<close>

text \<open>
  The merge rule and the subtraction rule of the specification, each as a function from what
  the set holds for an id (and what comes in for it) to what the set holds afterwards. They
  follow the specification's sentences, not the code; the theorems below compare the code
  with them.
\<close>

definition merge_rule ::
  "CaveatExpression option option \<Rightarrow> CaveatExpression option \<Rightarrow> CaveatExpression option" where
  "merge_rule stored incoming =
     (case stored of
        None \<Rightarrow> incoming
      | Some None \<Rightarrow> None
      | Some (Some e) \<Rightarrow>
          (case incoming of
             None \<Rightarrow> None
           | Some i \<Rightarrow> caveatOr (Some e) (Some i)))"

definition subtraction_rule ::
  "CaveatExpression option option \<Rightarrow> ResourceCheckResult option \<Rightarrow>
   CaveatExpression option option" where
  "subtraction_rule stored incoming =
     (case stored of
        None \<Rightarrow> None
      | Some e \<Rightarrow>
          (case incoming of
             None \<Rightarrow> Some e
           | Some details \<Rightarrow>
               (case Expression details of
                  None \<Rightarrow> None
                | Some r \<Rightarrow>
                    Some (if e = None then invert (Some r)
                          else Some (CaveatExpression_Operation CaveatOperation_AND
                                       [e, invert (Some r)])))))"

text \<open>The cache \<^verbatim>\<open>hasDeterminedMember\<close> agrees with the map.\<close>

definition consistent :: "MembershipSet \<Rightarrow> bool" where
  "consistent ms = (hasDeterminedMember ms = (\<exists>resourceID. membersByID ms resourceID = Some None))"

text \<open>
  The membership sets a caller can build: the empty one, and whatever a public operation
  returns on one of them (when it returns), for any order in which its loops may visit the
  maps.
\<close>

inductive reachable :: "MembershipSet \<Rightarrow> bool" where
  reachable_New: "reachable NewMembershipSet"
| reachable_AddDirectMember:
    "reachable ms \<Longrightarrow> reachable (AddDirectMember ms resourceID caveat)"
| reachable_AddMemberViaRelationship:
    "reachable ms \<Longrightarrow>
     reachable (AddMemberViaRelationship ms resourceID resourceCaveatExpression parentRelationship)"
| reachable_UnionWith:
    "reachable ms \<Longrightarrow> range_order order resultsMap \<Longrightarrow>
     UnionWith order ms resultsMap = Inr ms' \<Longrightarrow> reachable ms'"
| reachable_IntersectWith:
    "reachable ms \<Longrightarrow> range_order memberOrder (membersByID ms) \<Longrightarrow>
     range_order resultOrder resultsMap \<Longrightarrow>
     IntersectWith memberOrder resultOrder ms resultsMap = Inr ms' \<Longrightarrow> reachable ms'"
| reachable_Subtract:
    "reachable ms \<Longrightarrow> range_order order (membersByID ms) \<Longrightarrow>
     Subtract order ms resultsMap = Inr ms' \<Longrightarrow> reachable ms'"


section \<open>The single-flight dispatcher\<close>

text \<open>
  The dispatcher's collaborators (the delegate dispatcher, the key handler, the single-flight
  group of \<^verbatim>\<open>resenje.org/singleflight\<close>) and the message types are declared outside the
  sources, so every operation takes the collaborator methods it calls as arguments, and the
  request, stream and context types are type variables. The key handler is a function of the
  context and the request ("two pure functions, each \<open>request \<rightarrow> bytes | err\<close>"); the delegate
  and the group act on the world.

  Modelled from the spec: "every response carries a \<open>dispatch-count: u32\<close> field"; a
  response is its metadata pointer and the payload of the operation, \<open>None\<close> for the unset
  payload of a freshly allocated message.
\<close>

datatype codes_Code =
    codes_OK | codes_Canceled | codes_Unknown | codes_InvalidArgument
  | codes_DeadlineExceeded | codes_NotFound | codes_AlreadyExists | codes_PermissionDenied
  | codes_ResourceExhausted | codes_FailedPrecondition | codes_Aborted | codes_OutOfRange
  | codes_Unimplemented | codes_Internal | codes_Unavailable | codes_DataLoss
  | codes_Unauthenticated

text \<open>
  A non-nil Go \<^verbatim>\<open>error\<close>: one built by \<^verbatim>\<open>status.Error\<close>, or whatever a collaborator
  returned.
\<close>

datatype 'e dispatch_error = status_Error codes_Code string | collaborator_error 'e

record ResponseMeta =
  DispatchCount :: "32 word"

record 'body DispatchResponse =
  Metadata :: "ResponseMeta option"
  Body :: "'body option"

text \<open>
  What a call can change: the world of the collaborators (a type variable: network, streams,
  the groups' in-flight tables) and the package's counter vector
  \<^verbatim>\<open>singleFlightCount\<close>, indexed by its labels (method, shared).
\<close>

record 'w dispatch_state =
  world :: 'w
  singleFlightCount :: "string \<times> string \<Rightarrow> nat"

type_synonym ('ctx, 'req, 'body, 'w, 'e) unary_dispatch =
  "'ctx \<Rightarrow> 'req \<Rightarrow> 'w \<Rightarrow> ('body DispatchResponse option \<times> 'e dispatch_error option) \<times> 'w"

type_synonym ('req, 'stream, 'w, 'e) stream_dispatch =
  "'req \<Rightarrow> 'stream \<Rightarrow> 'w \<Rightarrow> 'e dispatch_error option \<times> 'w"

type_synonym ('ctx, 'req, 'e) dispatch_key =
  "'ctx \<Rightarrow> 'req \<Rightarrow> 'e dispatch_error + 8 word list"

text \<open>
  \<^verbatim>\<open>Group.Do(ctx, key, fn)\<close> returns a value, whether it was shared, and an error; what it
  does with \<^verbatim>\<open>fn\<close> is the library's business.
\<close>

type_synonym ('ctx, 'body, 'w, 'e) group_Do =
  "'ctx \<Rightarrow> string \<Rightarrow>
   ('ctx \<Rightarrow> 'w \<Rightarrow> ('body DispatchResponse option \<times> 'e dispatch_error option) \<times> 'w) \<Rightarrow>
   'w \<Rightarrow> ('body DispatchResponse option \<times> bool \<times> 'e dispatch_error option) \<times> 'w"

definition hextable :: string where
  "hextable = ''0123456789abcdef''"

fun hex_EncodeToString :: "8 word list \<Rightarrow> string" where
  "hex_EncodeToString [] = []"
| "hex_EncodeToString (v # src) =
     hextable ! unat (drop_bit 4 v) # hextable ! unat (take_bit 4 v) # hex_EncodeToString src"

definition strconv_FormatBool :: "bool \<Rightarrow> string" where
  "strconv_FormatBool b = (if b then ''true'' else ''false'')"

definition counter_Inc ::
  "(string \<times> string \<Rightarrow> nat) \<Rightarrow> string \<times> string \<Rightarrow> (string \<times> string \<Rightarrow> nat)" where
  "counter_Inc vec labels = vec(labels := vec labels + 1)"

definition DispatchCheck ::
  "('ctx, 'req, 'e) dispatch_key \<Rightarrow> ('ctx, 'body, 'w, 'e) group_Do \<Rightarrow>
   ('ctx, 'req, 'body, 'w, 'e) unary_dispatch \<Rightarrow>
   'ctx \<Rightarrow> 'req \<Rightarrow> 'w dispatch_state \<Rightarrow>
   ('body DispatchResponse option \<times> 'e dispatch_error option) \<times> 'w dispatch_state" where
  "DispatchCheck keyHandler_CheckDispatchKey checkGroup_Do delegate_DispatchCheck ctx req s =
     (case keyHandler_CheckDispatchKey ctx req of
        Inl err \<Rightarrow>
          ((Some \<lparr>Metadata = Some \<lparr>DispatchCount = 1\<rparr>, Body = None\<rparr>,
            Some (status_Error codes_Internal ''unexpected DispatchCheck error'')), s)
      | Inr key \<Rightarrow>
          (let keyString = hex_EncodeToString key;
               ((v, isShared, err), w) =
                 checkGroup_Do ctx keyString
                   (\<lambda>innerCtx. delegate_DispatchCheck innerCtx req) (world s);
               s' = s\<lparr>world := w,
                      singleFlightCount :=
                        counter_Inc (singleFlightCount s)
                          (''DispatchCheck'', strconv_FormatBool isShared)\<rparr>
           in if err \<noteq> None then
                ((Some \<lparr>Metadata = Some \<lparr>DispatchCount = 1\<rparr>, Body = None\<rparr>, err), s')
              else ((v, err), s')))"

definition DispatchExpand ::
  "('ctx, 'req, 'e) dispatch_key \<Rightarrow> ('ctx, 'body, 'w, 'e) group_Do \<Rightarrow>
   ('ctx, 'req, 'body, 'w, 'e) unary_dispatch \<Rightarrow>
   'ctx \<Rightarrow> 'req \<Rightarrow> 'w dispatch_state \<Rightarrow>
   ('body DispatchResponse option \<times> 'e dispatch_error option) \<times> 'w dispatch_state" where
  "DispatchExpand keyHandler_ExpandDispatchKey expandGroup_Do delegate_DispatchExpand ctx req s =
     (case keyHandler_ExpandDispatchKey ctx req of
        Inl err \<Rightarrow>
          ((Some \<lparr>Metadata = Some \<lparr>DispatchCount = 1\<rparr>, Body = None\<rparr>,
            Some (status_Error codes_Internal ''unexpected DispatchExpand error'')), s)
      | Inr key \<Rightarrow>
          (let keyString = hex_EncodeToString key;
               ((v, isShared, err), w) =
                 expandGroup_Do ctx keyString
                   (\<lambda>ictx. delegate_DispatchExpand ictx req) (world s);
               s' = s\<lparr>world := w,
                      singleFlightCount :=
                        counter_Inc (singleFlightCount s)
                          (''DispatchExpand'', strconv_FormatBool isShared)\<rparr>
           in if err \<noteq> None then
                ((Some \<lparr>Metadata = Some \<lparr>DispatchCount = 1\<rparr>, Body = None\<rparr>, err), s')
              else ((v, err), s')))"

definition DispatchReachableResources ::
  "('req, 'stream, 'w, 'e) stream_dispatch \<Rightarrow> 'req \<Rightarrow> 'stream \<Rightarrow> 'w dispatch_state \<Rightarrow>
   'e dispatch_error option \<times> 'w dispatch_state" where
  "DispatchReachableResources delegate_DispatchReachableResources req stream s =
     (let (err, w) = delegate_DispatchReachableResources req stream (world s)
      in (err, s\<lparr>world := w\<rparr>))"

definition DispatchLookupResources ::
  "('req, 'stream, 'w, 'e) stream_dispatch \<Rightarrow> 'req \<Rightarrow> 'stream \<Rightarrow> 'w dispatch_state \<Rightarrow>
   'e dispatch_error option \<times> 'w dispatch_state" where
  "DispatchLookupResources delegate_DispatchLookupResources req stream s =
     (let (err, w) = delegate_DispatchLookupResources req stream (world s)
      in (err, s\<lparr>world := w\<rparr>))"

definition DispatchLookupSubjects ::
  "('req, 'stream, 'w, 'e) stream_dispatch \<Rightarrow> 'req \<Rightarrow> 'stream \<Rightarrow> 'w dispatch_state \<Rightarrow>
   'e dispatch_error option \<times> 'w dispatch_state" where
  "DispatchLookupSubjects delegate_DispatchLookupSubjects req stream s =
     (let (err, w) = delegate_DispatchLookupSubjects req stream (world s)
      in (err, s\<lparr>world := w\<rparr>))"


section \<open>Example inputs\<close>

text \<open>The concrete scenarios of the specification, used to instantiate the theorems.\<close>

definition caveat_C1 :: CaveatExpression where
  "caveat_C1 = CaveatExpression_Caveat (ContextualizedCaveat ''C1'' [])"

definition caveat_C2 :: CaveatExpression where
  "caveat_C2 = CaveatExpression_Caveat (ContextualizedCaveat ''C2'' [])"

definition union_example_set :: MembershipSet where
  "union_example_set =
     AddDirectMember NewMembershipSet ''r1'' (Some (ContextualizedCaveat ''C1'' []))"

definition union_example_results :: CheckResultsMap where
  "union_example_results =
     [''r1'' \<mapsto> Some \<lparr>Membership = DispatchCheckResponse_CAVEATED_MEMBER,
                       Expression = Some caveat_C2\<rparr>,
      ''r2'' \<mapsto> Some \<lparr>Membership = DispatchCheckResponse_MEMBER, Expression = None\<rparr>]"

definition intersect_example_set :: MembershipSet where
  "intersect_example_set =
     \<lparr>membersByID = [''r1'' \<mapsto> None, ''r2'' \<mapsto> Some caveat_C1],
      hasDeterminedMember = True\<rparr>"

definition intersect_example_results :: CheckResultsMap where
  "intersect_example_results =
     [''r2'' \<mapsto> Some \<lparr>Membership = DispatchCheckResponse_MEMBER, Expression = None\<rparr>,
      ''r3'' \<mapsto> Some \<lparr>Membership = DispatchCheckResponse_CAVEATED_MEMBER,
                       Expression = Some caveat_C2\<rparr>]"

definition subtract_example_set :: MembershipSet where
  "subtract_example_set =
     \<lparr>membersByID =
        [''r1'' \<mapsto> Some caveat_C1, ''r2'' \<mapsto> None, ''r3'' \<mapsto> None, ''r4'' \<mapsto> None],
      hasDeterminedMember = True\<rparr>"

definition subtract_example_results :: CheckResultsMap where
  "subtract_example_results =
     [''r1'' \<mapsto> Some \<lparr>Membership = DispatchCheckResponse_CAVEATED_MEMBER,
                       Expression = Some caveat_C2\<rparr>,
      ''r2'' \<mapsto> Some \<lparr>Membership = DispatchCheckResponse_MEMBER, Expression = None\<rparr>,
      ''r3'' \<mapsto> Some \<lparr>Membership = DispatchCheckResponse_CAVEATED_MEMBER,
                       Expression = Some caveat_C2\<rparr>]"

text \<open>A set that holds \<open>r1\<close>, and a results map that holds \<open>r1\<close> with a nil pointer.\<close>

definition nil_result_set :: MembershipSet where
  "nil_result_set = \<lparr>membersByID = [''r1'' \<mapsto> None], hasDeterminedMember = True\<rparr>"

definition nil_result_map :: CheckResultsMap where
  "nil_result_map = [''r1'' \<mapsto> None]"

definition roundtrip_example_set :: MembershipSet where
  "roundtrip_example_set =
     AddDirectMember
       (AddDirectMember NewMembershipSet ''r1'' (Some (ContextualizedCaveat ''C1'' [])))
       ''r2'' None"

text \<open>
  Collaborators for the dispatcher: a key handler that fails and one that succeeds, a group
  with nothing in flight (it runs the function and reports the result as not shared), and a
  delegate that fails. The world is the number of calls the delegate has seen.
\<close>

definition failing_key :: "(unit, string, string) dispatch_key" where
  "failing_key = (\<lambda>ctx req. Inl (collaborator_error ''no key''))"

definition constant_key :: "(unit, string, string) dispatch_key" where
  "constant_key = (\<lambda>ctx req. Inr [])"

definition idle_group_Do :: "(unit, 'body, nat, string) group_Do" where
  "idle_group_Do = (\<lambda>ctx key fn w. (let ((v, err), w') = fn ctx w in ((v, False, err), w')))"

definition failing_delegate :: "(unit, string, 'body, nat, string) unary_dispatch" where
  "failing_delegate = (\<lambda>ctx req w. ((None, Some (collaborator_error ''unavailable'')), Suc w))"

definition succeeding_delegate :: "(unit, string, 'body, nat, string) unary_dispatch" where
  "succeeding_delegate =
     (\<lambda>ctx req w. ((Some \<lparr>Metadata = Some \<lparr>DispatchCount = 3\<rparr>, Body = None\<rparr>, None), Suc w))"

definition counting_stream_delegate :: "(string, string, nat, string) stream_dispatch" where
  "counting_stream_delegate = (\<lambda>req stream w. (None, Suc w))"

definition initial_state :: "nat dispatch_state" where
  "initial_state = \<lparr>world = 0, singleFlightCount = (\<lambda>labels. 0)\<rparr>"


section \<open>What each loop computes\<close>

text \<open>
  Each loop either meets a nil result for an id it has to read, and panics, or returns a set
  that is described id by id.
\<close>

lemma addMember_members:
  "membersByID (addMember ms r c) = (membersByID ms)(r \<mapsto> merge_rule (membersByID ms r) c)"
  by (auto simp: addMember_def merge_rule_def fun_eq_iff split: option.splits)

lemma addMember_determined:
  "hasDeterminedMember (addMember ms r c) =
     (hasDeterminedMember ms \<or> (c = None \<and> membersByID ms r \<noteq> Some None))"
  by (auto simp: addMember_def split: option.splits)

lemma UnionWith_range_nil:
  "a \<in> set ks \<Longrightarrow> R a = Some None \<Longrightarrow> UnionWith_range ks R ms = Inl NilDereference"
proof (induction ks arbitrary: ms)
  case Nil
  then show ?case by simp
next
  case (Cons b ks)
  show ?case
  proof (cases "R b")
    case None
    with Cons.prems have "a \<in> set ks" by auto
    with Cons None show ?thesis by simp
  next
    case (Some details)
    show ?thesis
    proof (cases details)
      case None
      with Some show ?thesis by simp
    next
      case d: (Some d)
      with Some Cons.prems have "a \<in> set ks" by auto
      with Cons Some d show ?thesis by simp
    qed
  qed
qed

lemma UnionWith_range_result:
  "distinct ks \<Longrightarrow> \<forall>k\<in>set ks. R k \<noteq> Some None \<Longrightarrow>
   \<exists>ms'. UnionWith_range ks R ms = Inr ms' \<and>
     (\<forall>k. membersByID ms' k =
        (if k \<in> set ks then
           (case R k of
              Some (Some d) \<Rightarrow> Some (merge_rule (membersByID ms k) (Expression d))
            | _ \<Rightarrow> membersByID ms k)
         else membersByID ms k)) \<and>
     hasDeterminedMember ms' =
       (hasDeterminedMember ms \<or>
        (\<exists>k d. k \<in> set ks \<and> R k = Some (Some d) \<and> Expression d = None \<and>
           membersByID ms k \<noteq> Some None))"
proof (induction ks arbitrary: ms)
  case Nil
  then show ?case by simp
next
  case (Cons a ks)
  then have d: "distinct ks" and a: "a \<notin> set ks" and n: "\<forall>k\<in>set ks. R k \<noteq> Some None"
    and na: "R a \<noteq> Some None"
    by simp_all
  show ?case
  proof (cases "R a")
    case None
    obtain ms' where
      r: "UnionWith_range ks R ms = Inr ms'" and
      m: "\<forall>k. membersByID ms' k =
        (if k \<in> set ks then
           (case R k of
              Some (Some d) \<Rightarrow> Some (merge_rule (membersByID ms k) (Expression d))
            | _ \<Rightarrow> membersByID ms k)
         else membersByID ms k)" and
      h: "hasDeterminedMember ms' =
       (hasDeterminedMember ms \<or>
        (\<exists>k d. k \<in> set ks \<and> R k = Some (Some d) \<and> Expression d = None \<and>
           membersByID ms k \<noteq> Some None))"
      using Cons.IH [OF d n] by blast
    have m': "\<forall>k. membersByID ms' k =
        (if k \<in> set (a # ks) then
           (case R k of
              Some (Some d) \<Rightarrow> Some (merge_rule (membersByID ms k) (Expression d))
            | _ \<Rightarrow> membersByID ms k)
         else membersByID ms k)"
      using m a None by auto
    have h': "hasDeterminedMember ms' =
       (hasDeterminedMember ms \<or>
        (\<exists>k d. k \<in> set (a # ks) \<and> R k = Some (Some d) \<and> Expression d = None \<and>
           membersByID ms k \<noteq> Some None))"
      using h None by auto
    from r m' h' None show ?thesis by (intro exI [of _ ms']) simp
  next
    case (Some details)
    with na obtain d0 where Ra: "R a = Some (Some d0)" by (cases details) auto
    let ?ms = "addMember ms a (Expression d0)"
    obtain ms' where
      r: "UnionWith_range ks R ?ms = Inr ms'" and
      m: "\<forall>k. membersByID ms' k =
        (if k \<in> set ks then
           (case R k of
              Some (Some d) \<Rightarrow> Some (merge_rule (membersByID ?ms k) (Expression d))
            | _ \<Rightarrow> membersByID ?ms k)
         else membersByID ?ms k)" and
      h: "hasDeterminedMember ms' =
       (hasDeterminedMember ?ms \<or>
        (\<exists>k d. k \<in> set ks \<and> R k = Some (Some d) \<and> Expression d = None \<and>
           membersByID ?ms k \<noteq> Some None))"
      using Cons.IH [OF d n, of ?ms] by blast
    have other: "\<And>k. k \<in> set ks \<Longrightarrow> membersByID ?ms k = membersByID ms k"
      using a by (auto simp: addMember_members)
    have m': "\<forall>k. membersByID ms' k =
        (if k \<in> set (a # ks) then
           (case R k of
              Some (Some d) \<Rightarrow> Some (merge_rule (membersByID ms k) (Expression d))
            | _ \<Rightarrow> membersByID ms k)
         else membersByID ms k)"
    proof
      fix k
      show "membersByID ms' k =
        (if k \<in> set (a # ks) then
           (case R k of
              Some (Some d) \<Rightarrow> Some (merge_rule (membersByID ms k) (Expression d))
            | _ \<Rightarrow> membersByID ms k)
         else membersByID ms k)"
      proof (cases "k = a")
        case True
        with m a Ra show ?thesis by (simp add: addMember_members)
      next
        case False
        show ?thesis
        proof (cases "k \<in> set ks")
          case True
          with m other [OF True] show ?thesis by (simp split: option.split)
        next
          case notin: False
          with m False show ?thesis by (simp add: addMember_members)
        qed
      qed
    qed
    have "(\<exists>k d. k \<in> set ks \<and> R k = Some (Some d) \<and> Expression d = None \<and>
           membersByID ?ms k \<noteq> Some None) =
          (\<exists>k d. k \<in> set ks \<and> R k = Some (Some d) \<and> Expression d = None \<and>
           membersByID ms k \<noteq> Some None)"
      using other by metis
    with h have h': "hasDeterminedMember ms' =
       (hasDeterminedMember ms \<or>
        (\<exists>k d. k \<in> set (a # ks) \<and> R k = Some (Some d) \<and> Expression d = None \<and>
           membersByID ms k \<noteq> Some None))"
      using Ra by (auto simp: addMember_determined)
    from r m' h' Ra show ?thesis by (intro exI [of _ ms']) simp
  qed
qed

lemma UnionWith_nil:
  assumes "range_order order R" and "R a = Some None"
  shows "UnionWith order ms R = Inl NilDereference"
proof -
  have "a \<in> set order" using assms by (auto simp: range_order_def)
  then show ?thesis
    unfolding UnionWith_def using assms(2) by (rule UnionWith_range_nil)
qed

lemma UnionWith_result:
  assumes "range_order order R" and "\<forall>k. R k \<noteq> Some None"
  shows "\<exists>ms'. UnionWith order ms R = Inr ms' \<and>
     (\<forall>k. membersByID ms' k =
        (case R k of
           Some (Some d) \<Rightarrow> Some (merge_rule (membersByID ms k) (Expression d))
         | _ \<Rightarrow> membersByID ms k)) \<and>
     hasDeterminedMember ms' =
       (hasDeterminedMember ms \<or>
        (\<exists>k d. R k = Some (Some d) \<and> Expression d = None \<and> membersByID ms k \<noteq> Some None))"
proof -
  have d: "distinct order" and s: "set order = dom R"
    using assms(1) by (simp_all add: range_order_def)
  have n: "\<forall>k\<in>set order. R k \<noteq> Some None" using assms(2) by simp
  obtain ms' where
    r: "UnionWith_range order R ms = Inr ms'" and
    m: "\<forall>k. membersByID ms' k =
        (if k \<in> set order then
           (case R k of
              Some (Some d) \<Rightarrow> Some (merge_rule (membersByID ms k) (Expression d))
            | _ \<Rightarrow> membersByID ms k)
         else membersByID ms k)" and
    h: "hasDeterminedMember ms' =
       (hasDeterminedMember ms \<or>
        (\<exists>k d. k \<in> set order \<and> R k = Some (Some d) \<and> Expression d = None \<and>
           membersByID ms k \<noteq> Some None))"
    using UnionWith_range_result [OF d n] by blast
  have m': "\<forall>k. membersByID ms' k =
        (case R k of
           Some (Some d) \<Rightarrow> Some (merge_rule (membersByID ms k) (Expression d))
         | _ \<Rightarrow> membersByID ms k)"
  proof
    fix k
    show "membersByID ms' k =
        (case R k of
           Some (Some d) \<Rightarrow> Some (merge_rule (membersByID ms k) (Expression d))
         | _ \<Rightarrow> membersByID ms k)"
    proof (cases "k \<in> set order")
      case True
      with m show ?thesis by simp
    next
      case False
      then have "R k = None" using s by auto
      with False m show ?thesis by simp
    qed
  qed
  have h': "hasDeterminedMember ms' =
       (hasDeterminedMember ms \<or>
        (\<exists>k d. R k = Some (Some d) \<and> Expression d = None \<and> membersByID ms k \<noteq> Some None))"
    unfolding h using s by auto
  from r m' h' show ?thesis by (simp add: UnionWith_def)
qed

lemma IntersectWith_delete_members:
  "membersByID (IntersectWith_delete ks R ms) k =
     (if k \<in> set ks \<and> R k = None then None else membersByID ms k)"
proof (induction ks arbitrary: ms)
  case Nil
  then show ?case by simp
next
  case (Cons a ks)
  show ?case
    by (cases "membersByID ms a"; cases "R a"; cases "a = k") (simp_all add: Cons.IH)
qed

lemma IntersectWith_range_nil:
  "a \<in> set ks \<Longrightarrow> membersByID ms a \<noteq> None \<Longrightarrow> R a = Some None \<Longrightarrow>
   IntersectWith_range ks R ms = Inl NilDereference"
proof (induction ks arbitrary: ms)
  case Nil
  then show ?case by simp
next
  case (Cons b ks)
  show ?case
  proof (cases "b = a")
    case True
    with Cons.prems show ?thesis by auto
  next
    case False
    with Cons.prems have in_ks: "a \<in> set ks" by simp
    show ?thesis
    proof (cases "R b")
      case None
      with Cons.IH [OF in_ks Cons.prems(2,3)] show ?thesis by simp
    next
      case Rb: (Some details)
      show ?thesis
      proof (cases "membersByID ms b")
        case None
        with Rb Cons.IH [OF in_ks Cons.prems(2,3)] show ?thesis by simp
      next
        case (Some existing)
        show ?thesis
        proof (cases details)
          case None
          with Rb Some show ?thesis by simp
        next
          case d: (Some d)
          have 1: "membersByID (ms\<lparr>hasDeterminedMember := True\<rparr>) a \<noteq> None"
            using Cons.prems(2) by simp
          have 2: "membersByID (ms\<lparr>membersByID :=
                     (membersByID ms)(b \<mapsto> caveatAnd existing (Expression d))\<rparr>) a \<noteq> None"
            using Cons.prems(2) by simp
          from Cons.IH [OF in_ks 1 Cons.prems(3)] Cons.IH [OF in_ks 2 Cons.prems(3)]
          show ?thesis using Rb Some d by simp
        qed
      qed
    qed
  qed
qed

lemma IntersectWith_range_result:
  "distinct ks \<Longrightarrow> \<forall>k\<in>set ks. membersByID ms k \<noteq> None \<longrightarrow> R k \<noteq> Some None \<Longrightarrow>
   \<exists>ms'. IntersectWith_range ks R ms = Inr ms' \<and>
     (\<forall>k. membersByID ms' k =
        (if k \<in> set ks then
           (case R k of
              Some (Some d) \<Rightarrow>
                (case membersByID ms k of
                   None \<Rightarrow> None
                 | Some existing \<Rightarrow>
                     Some (if existing = None \<and> Expression d = None then None
                           else caveatAnd existing (Expression d)))
            | _ \<Rightarrow> membersByID ms k)
         else membersByID ms k)) \<and>
     hasDeterminedMember ms' =
       (hasDeterminedMember ms \<or>
        (\<exists>k d. k \<in> set ks \<and> R k = Some (Some d) \<and> Expression d = None \<and>
           membersByID ms k = Some None))"
proof (induction ks arbitrary: ms)
  case Nil
  then show ?case by simp
next
  case (Cons a ks)
  then have d: "distinct ks" and a: "a \<notin> set ks"
    and n: "\<forall>k\<in>set ks. membersByID ms k \<noteq> None \<longrightarrow> R k \<noteq> Some None"
    and na: "membersByID ms a \<noteq> None \<longrightarrow> R a \<noteq> Some None"
    by simp_all
  let ?entry = "\<lambda>m k. (case R k of
              Some (Some d) \<Rightarrow>
                (case m k of
                   None \<Rightarrow> None
                 | Some existing \<Rightarrow>
                     Some (if existing = None \<and> Expression d = None then None
                           else caveatAnd existing (Expression d)))
            | _ \<Rightarrow> m k)"
  have step: "\<exists>ms1. IntersectWith_range (a # ks) R ms = IntersectWith_range ks R ms1 \<and>
      membersByID ms1 = (membersByID ms)(a := ?entry (membersByID ms) a) \<and>
      hasDeterminedMember ms1 =
        (hasDeterminedMember ms \<or>
         (\<exists>d. R a = Some (Some d) \<and> Expression d = None \<and> membersByID ms a = Some None))"
  proof (cases "R a")
    case None
    then show ?thesis by (intro exI [of _ ms]) (auto simp: fun_eq_iff)
  next
    case Ra: (Some details)
    show ?thesis
    proof (cases "membersByID ms a")
      case None
      with Ra show ?thesis
        by (intro exI [of _ ms]) (auto simp: fun_eq_iff split: option.split)
    next
      case (Some existing)
      with na Ra obtain d0 where det: "details = Some d0" by (cases details) auto
      show ?thesis
      proof (cases "existing = None \<and> Expression d0 = None")
        case True
        with Ra Some det show ?thesis
          by (intro exI [of _ "ms\<lparr>hasDeterminedMember := True\<rparr>"]) (auto simp: fun_eq_iff)
      next
        case False
        with Ra Some det show ?thesis
          by (intro exI [of _ "ms\<lparr>membersByID :=
                 (membersByID ms)(a \<mapsto> caveatAnd existing (Expression d0))\<rparr>"])
             (auto simp: fun_eq_iff)
      qed
    qed
  qed
  then obtain ms1 where
    s1: "IntersectWith_range (a # ks) R ms = IntersectWith_range ks R ms1" and
    m1: "membersByID ms1 = (membersByID ms)(a := ?entry (membersByID ms) a)" and
    h1: "hasDeterminedMember ms1 =
        (hasDeterminedMember ms \<or>
         (\<exists>d. R a = Some (Some d) \<and> Expression d = None \<and> membersByID ms a = Some None))"
    by blast
  have other: "\<And>k. k \<in> set ks \<Longrightarrow> membersByID ms1 k = membersByID ms k"
    using a m1 by auto
  have n1: "\<forall>k\<in>set ks. membersByID ms1 k \<noteq> None \<longrightarrow> R k \<noteq> Some None"
    using n other by simp
  obtain ms' where
    r: "IntersectWith_range ks R ms1 = Inr ms'" and
    m: "\<forall>k. membersByID ms' k =
          (if k \<in> set ks then ?entry (membersByID ms1) k else membersByID ms1 k)" and
    h: "hasDeterminedMember ms' =
       (hasDeterminedMember ms1 \<or>
        (\<exists>k d. k \<in> set ks \<and> R k = Some (Some d) \<and> Expression d = None \<and>
           membersByID ms1 k = Some None))"
    using Cons.IH [OF d n1] by blast
  have m': "\<forall>k. membersByID ms' k =
          (if k \<in> set (a # ks) then ?entry (membersByID ms) k else membersByID ms k)"
  proof
    fix k
    show "membersByID ms' k =
          (if k \<in> set (a # ks) then ?entry (membersByID ms) k else membersByID ms k)"
    proof (cases "k = a")
      case True
      with m a m1 show ?thesis by (simp split: option.split)
    next
      case False
      show ?thesis
      proof (cases "k \<in> set ks")
        case True
        with m other [OF True] show ?thesis by (simp split: option.split)
      next
        case notin: False
        with m False m1 show ?thesis by (simp split: option.split)
      qed
    qed
  qed
  have "(\<exists>k d. k \<in> set ks \<and> R k = Some (Some d) \<and> Expression d = None \<and>
           membersByID ms1 k = Some None) =
        (\<exists>k d. k \<in> set ks \<and> R k = Some (Some d) \<and> Expression d = None \<and>
           membersByID ms k = Some None)"
    using other by metis
  with h h1 have h': "hasDeterminedMember ms' =
       (hasDeterminedMember ms \<or>
        (\<exists>k d. k \<in> set (a # ks) \<and> R k = Some (Some d) \<and> Expression d = None \<and>
           membersByID ms k = Some None))"
    by auto
  from s1 r m' h' show ?case by (intro exI [of _ ms']) simp
qed

lemma IntersectWith_nil:
  assumes "range_order resultOrder R" and "membersByID ms a \<noteq> None" and "R a = Some None"
  shows "IntersectWith memberOrder resultOrder ms R = Inl NilDereference"
proof -
  have "a \<in> set resultOrder" using assms(1,3) by (auto simp: range_order_def)
  moreover have "membersByID
      ((IntersectWith_delete memberOrder R ms)\<lparr>hasDeterminedMember := False\<rparr>) a \<noteq> None"
    using assms(2,3) by (simp add: IntersectWith_delete_members)
  ultimately show ?thesis
    unfolding IntersectWith_def Let_def using assms(3) by (rule IntersectWith_range_nil)
qed

lemma IntersectWith_result:
  assumes "range_order memberOrder (membersByID ms)" and "range_order resultOrder R"
    and "\<forall>k. membersByID ms k \<noteq> None \<longrightarrow> R k \<noteq> Some None"
  shows "\<exists>ms'. IntersectWith memberOrder resultOrder ms R = Inr ms' \<and>
     (\<forall>k. membersByID ms' k =
        (case membersByID ms k of
           None \<Rightarrow> None
         | Some existing \<Rightarrow>
             (case R k of
                Some (Some d) \<Rightarrow>
                  Some (if existing = None \<and> Expression d = None then None
                        else caveatAnd existing (Expression d))
              | _ \<Rightarrow> None))) \<and>
     hasDeterminedMember ms' =
       (\<exists>k d. membersByID ms k = Some None \<and> R k = Some (Some d) \<and> Expression d = None)"
proof -
  have d: "distinct resultOrder" and s: "set resultOrder = dom R"
    and s': "set memberOrder = dom (membersByID ms)"
    using assms(1,2) by (simp_all add: range_order_def)
  let ?ms2 = "(IntersectWith_delete memberOrder R ms)\<lparr>hasDeterminedMember := False\<rparr>"
  have n: "\<forall>k\<in>set resultOrder. membersByID ?ms2 k \<noteq> None \<longrightarrow> R k \<noteq> Some None"
    using assms(3) by (auto simp: IntersectWith_delete_members split: if_splits)
  obtain ms' where
    r: "IntersectWith_range resultOrder R ?ms2 = Inr ms'" and
    m: "\<forall>k. membersByID ms' k =
        (if k \<in> set resultOrder then
           (case R k of
              Some (Some d) \<Rightarrow>
                (case membersByID ?ms2 k of
                   None \<Rightarrow> None
                 | Some existing \<Rightarrow>
                     Some (if existing = None \<and> Expression d = None then None
                           else caveatAnd existing (Expression d)))
            | _ \<Rightarrow> membersByID ?ms2 k)
         else membersByID ?ms2 k)" and
    h: "hasDeterminedMember ms' =
       (hasDeterminedMember ?ms2 \<or>
        (\<exists>k d. k \<in> set resultOrder \<and> R k = Some (Some d) \<and> Expression d = None \<and>
           membersByID ?ms2 k = Some None))"
    using IntersectWith_range_result [OF d n] by blast
  have m': "\<forall>k. membersByID ms' k =
        (case membersByID ms k of
           None \<Rightarrow> None
         | Some existing \<Rightarrow>
             (case R k of
                Some (Some d) \<Rightarrow>
                  Some (if existing = None \<and> Expression d = None then None
                        else caveatAnd existing (Expression d))
              | _ \<Rightarrow> None))"
  proof
    fix k
    show "membersByID ms' k =
        (case membersByID ms k of
           None \<Rightarrow> None
         | Some existing \<Rightarrow>
             (case R k of
                Some (Some d) \<Rightarrow>
                  Some (if existing = None \<and> Expression d = None then None
                        else caveatAnd existing (Expression d))
              | _ \<Rightarrow> None))"
    proof (cases "R k")
      case None
      then have "k \<notin> set resultOrder" using s by auto
      with None s' m [rule_format, of k] show ?thesis
        by (auto simp: IntersectWith_delete_members split: option.split)
    next
      case (Some details)
      then have in_ro: "k \<in> set resultOrder" using s by auto
      show ?thesis
      proof (cases details)
        case None
        with Some assms(3) have "membersByID ms k = None" by auto
        with Some None in_ro m [rule_format, of k] show ?thesis by (simp add: IntersectWith_delete_members)
      next
        case d0: (Some d0)
        with Some in_ro m [rule_format, of k] show ?thesis
          by (simp add: IntersectWith_delete_members split: option.split)
      qed
    qed
  qed
  have h': "hasDeterminedMember ms' =
       (\<exists>k d. membersByID ms k = Some None \<and> R k = Some (Some d) \<and> Expression d = None)"
    unfolding h using s by (auto simp: IntersectWith_delete_members)
  from r m' h' show ?thesis by (simp add: IntersectWith_def Let_def)
qed

lemma caveatSub_present:
  "caveatSub e (Some r) =
     Inr (if e = None then invert (Some r)
          else Some (CaveatExpression_Operation CaveatOperation_AND [e, invert (Some r)]))"
  by (simp add: caveatSub_def Let_def)

lemma Subtract_range_step:
  assumes "membersByID ms a \<noteq> None \<longrightarrow> R a \<noteq> Some None"
  shows "\<exists>ms1. Subtract_range (a # ks) R ms = Subtract_range ks R ms1 \<and>
         membersByID ms1 =
           (membersByID ms)(a := subtraction_rule (membersByID ms a) (Option.bind (R a) id)) \<and>
         hasDeterminedMember ms1 =
           (hasDeterminedMember ms \<or> (membersByID ms a = Some None \<and> R a = None))"
proof (cases "membersByID ms a")
  case None
  then show ?thesis
    by (intro exI [of _ ms]) (auto simp: subtraction_rule_def)
next
  case (Some expression)
  show ?thesis
  proof (cases "R a")
    case None
    show ?thesis
    proof (cases "expression = None")
      case True
      with Some None show ?thesis
        by (intro exI [of _ "ms\<lparr>hasDeterminedMember := True\<rparr>"])
           (auto simp: subtraction_rule_def)
    next
      case False
      with Some None show ?thesis
        by (intro exI [of _ ms]) (auto simp: subtraction_rule_def)
    qed
  next
    case Ra: (Some details)
    with Some assms obtain d where det: "details = Some d" by (cases details) auto
    show ?thesis
    proof (cases "Expression d")
      case None
      with Some Ra det show ?thesis
        by (intro exI [of _ "ms\<lparr>membersByID := (membersByID ms)(a := None)\<rparr>"])
           (simp add: subtraction_rule_def)
    next
      case Er: (Some r)
      let ?v = "if expression = None then invert (Some r)
                else Some (CaveatExpression_Operation CaveatOperation_AND
                             [expression, invert (Some r)])"
      from Some Ra det Er show ?thesis
        by (intro exI [of _ "ms\<lparr>membersByID := (membersByID ms)(a \<mapsto> ?v)\<rparr>"])
           (simp add: subtraction_rule_def caveatSub_present)
    qed
  qed
qed

lemma Subtract_range_nil:
  "a \<in> set ks \<Longrightarrow> membersByID ms a \<noteq> None \<Longrightarrow> R a = Some None \<Longrightarrow>
   Subtract_range ks R ms = Inl NilDereference"
proof (induction ks arbitrary: ms)
  case Nil
  then show ?case by simp
next
  case (Cons b ks)
  show ?case
  proof (cases "membersByID ms b \<noteq> None \<and> R b = Some None")
    case True
    then show ?thesis by auto
  next
    case False
    with Cons.prems have ne: "b \<noteq> a" and in_ks: "a \<in> set ks" by auto
    from False have "membersByID ms b \<noteq> None \<longrightarrow> R b \<noteq> Some None" by blast
    from Subtract_range_step [of ms b R ks, OF this]
    obtain ms1 where
      s1: "Subtract_range (b # ks) R ms = Subtract_range ks R ms1" and
      m1: "membersByID ms1 =
           (membersByID ms)(b := subtraction_rule (membersByID ms b) (Option.bind (R b) id))"
      by blast
    have "membersByID ms1 a \<noteq> None" using m1 ne Cons.prems(2) by simp
    from Cons.IH [OF in_ks this Cons.prems(3)] s1 show ?thesis by simp
  qed
qed

lemma Subtract_range_total:
  "\<forall>k\<in>set ks. membersByID ms k \<noteq> None \<longrightarrow> R k \<noteq> Some None \<Longrightarrow>
   \<exists>ms'. Subtract_range ks R ms = Inr ms'"
proof (induction ks arbitrary: ms)
  case Nil
  then show ?case by simp
next
  case (Cons a ks)
  then have "membersByID ms a \<noteq> None \<longrightarrow> R a \<noteq> Some None" by simp
  from Subtract_range_step [of ms a R ks, OF this]
  obtain ms1 where
    s1: "Subtract_range (a # ks) R ms = Subtract_range ks R ms1" and
    m1: "membersByID ms1 =
         (membersByID ms)(a := subtraction_rule (membersByID ms a) (Option.bind (R a) id))"
    by blast
  have "\<And>k. membersByID ms1 k \<noteq> None \<Longrightarrow> membersByID ms k \<noteq> None"
    by (auto simp: m1 subtraction_rule_def split: if_splits option.splits)
  with Cons.prems have "\<forall>k\<in>set ks. membersByID ms1 k \<noteq> None \<longrightarrow> R k \<noteq> Some None"
    by auto
  from Cons.IH [OF this] s1 show ?case by simp
qed

lemma Subtract_range_result:
  "distinct ks \<Longrightarrow> \<forall>k\<in>set ks. membersByID ms k \<noteq> None \<longrightarrow> R k \<noteq> Some None \<Longrightarrow>
   \<exists>ms'. Subtract_range ks R ms = Inr ms' \<and>
     (\<forall>k. membersByID ms' k =
        (if k \<in> set ks then subtraction_rule (membersByID ms k) (Option.bind (R k) id)
         else membersByID ms k)) \<and>
     hasDeterminedMember ms' =
       (hasDeterminedMember ms \<or> (\<exists>k. k \<in> set ks \<and> membersByID ms k = Some None \<and> R k = None))"
proof (induction ks arbitrary: ms)
  case Nil
  then show ?case by simp
next
  case (Cons a ks)
  then have d: "distinct ks" and a: "a \<notin> set ks"
    and n: "\<forall>k\<in>set ks. membersByID ms k \<noteq> None \<longrightarrow> R k \<noteq> Some None"
    and na: "membersByID ms a \<noteq> None \<longrightarrow> R a \<noteq> Some None"
    by simp_all
  obtain ms1 where
    s1: "Subtract_range (a # ks) R ms = Subtract_range ks R ms1" and
    m1: "membersByID ms1 =
           (membersByID ms)(a := subtraction_rule (membersByID ms a) (Option.bind (R a) id))" and
    h1: "hasDeterminedMember ms1 =
           (hasDeterminedMember ms \<or> (membersByID ms a = Some None \<and> R a = None))"
    using Subtract_range_step [of ms a R ks, OF na] by blast
  have other: "\<And>k. k \<in> set ks \<Longrightarrow> membersByID ms1 k = membersByID ms k"
    using a m1 by auto
  have n1: "\<forall>k\<in>set ks. membersByID ms1 k \<noteq> None \<longrightarrow> R k \<noteq> Some None"
    using n other by simp
  obtain ms' where
    s2: "Subtract_range ks R ms1 = Inr ms'" and
    m2: "\<forall>k. membersByID ms' k =
        (if k \<in> set ks then subtraction_rule (membersByID ms1 k) (Option.bind (R k) id)
         else membersByID ms1 k)" and
    h2: "hasDeterminedMember ms' =
       (hasDeterminedMember ms1 \<or>
        (\<exists>k. k \<in> set ks \<and> membersByID ms1 k = Some None \<and> R k = None))"
    using Cons.IH [OF d n1] by blast
  have m: "\<forall>k. membersByID ms' k =
        (if k \<in> set (a # ks) then subtraction_rule (membersByID ms k) (Option.bind (R k) id)
         else membersByID ms k)"
    using m2 m1 a by auto
  have "(\<exists>k. k \<in> set ks \<and> membersByID ms1 k = Some None \<and> R k = None) =
        (\<exists>k. k \<in> set ks \<and> membersByID ms k = Some None \<and> R k = None)"
    using other by metis
  with h1 h2 have h: "hasDeterminedMember ms' =
       (hasDeterminedMember ms \<or>
        (\<exists>k. k \<in> set (a # ks) \<and> membersByID ms k = Some None \<and> R k = None))"
    by auto
  from s1 s2 m h show ?case by (intro exI [of _ ms']) simp
qed

lemma Subtract_range_calls_result:
  "snd (Subtract_range_calls ks R ms calls) = Subtract_range ks R ms"
proof (induction ks arbitrary: ms calls)
  case Nil
  then show ?case by simp
next
  case (Cons a ks)
  show ?case
    by (simp add: Cons.IH split: option.split sum.split)
qed

lemma Subtract_range_calls_arguments:
  "\<forall>c\<in>set calls. snd c \<noteq> None \<Longrightarrow>
   \<forall>c\<in>set (fst (Subtract_range_calls ks R ms calls)). snd c \<noteq> None"
proof (induction ks arbitrary: ms calls)
  case Nil
  then show ?case by simp
next
  case (Cons a ks)
  show ?case
  proof (cases "membersByID ms a")
    case None
    with Cons show ?thesis by simp
  next
    case (Some expression)
    show ?thesis
    proof (cases "R a")
      case None
      with Some Cons.IH [OF Cons.prems] show ?thesis by simp
    next
      case Ra: (Some details)
      show ?thesis
      proof (cases details)
        case None
        with Some Ra Cons.prems show ?thesis by simp
      next
        case d: (Some d)
        show ?thesis
        proof (cases "Expression d")
          case None
          with Some Ra d Cons.IH [OF Cons.prems] show ?thesis by simp
        next
          case Er: (Some r)
          have c: "\<forall>c\<in>set (calls @ [(expression, Expression d)]). snd c \<noteq> None"
            using Cons.prems Er by simp
          from Some Ra d Er Cons.IH [OF c] c show ?thesis
            by (simp add: caveatSub_present)
        qed
      qed
    qed
  qed
qed

lemma Subtract_nil:
  assumes "range_order order (membersByID ms)" and "membersByID ms a \<noteq> None"
    and "R a = Some None"
  shows "Subtract order ms R = Inl NilDereference"
proof -
  have "a \<in> set order" using assms(1,2) by (auto simp: range_order_def)
  moreover have "membersByID (ms\<lparr>hasDeterminedMember := False\<rparr>) a \<noteq> None"
    using assms(2) by simp
  ultimately show ?thesis
    unfolding Subtract_def using assms(3) by (rule Subtract_range_nil)
qed

lemma Subtract_result:
  assumes "range_order order (membersByID ms)"
    and "\<forall>k. membersByID ms k \<noteq> None \<longrightarrow> R k \<noteq> Some None"
  shows "\<exists>ms'. Subtract order ms R = Inr ms' \<and>
     (\<forall>k. membersByID ms' k = subtraction_rule (membersByID ms k) (Option.bind (R k) id)) \<and>
     hasDeterminedMember ms' = (\<exists>k. membersByID ms k = Some None \<and> R k = None)"
proof -
  have d: "distinct order" and s: "set order = dom (membersByID ms)"
    using assms(1) by (simp_all add: range_order_def)
  let ?ms0 = "ms\<lparr>hasDeterminedMember := False\<rparr>"
  have n: "\<forall>k\<in>set order. membersByID ?ms0 k \<noteq> None \<longrightarrow> R k \<noteq> Some None"
    using assms(2) by simp
  obtain ms' where
    r: "Subtract_range order R ?ms0 = Inr ms'" and
    m: "\<forall>k. membersByID ms' k =
        (if k \<in> set order then subtraction_rule (membersByID ?ms0 k) (Option.bind (R k) id)
         else membersByID ?ms0 k)" and
    h: "hasDeterminedMember ms' =
       (hasDeterminedMember ?ms0 \<or>
        (\<exists>k. k \<in> set order \<and> membersByID ?ms0 k = Some None \<and> R k = None))"
    using Subtract_range_result [OF d n] by blast
  have m': "\<forall>k. membersByID ms' k = subtraction_rule (membersByID ms k) (Option.bind (R k) id)"
  proof
    fix k
    show "membersByID ms' k = subtraction_rule (membersByID ms k) (Option.bind (R k) id)"
    proof (cases "k \<in> set order")
      case True
      with m show ?thesis by simp
    next
      case False
      then have "membersByID ms k = None" using s by auto
      with False m show ?thesis by (simp add: subtraction_rule_def)
    qed
  qed
  have h': "hasDeterminedMember ms' = (\<exists>k. membersByID ms k = Some None \<and> R k = None)"
    using h s by auto
  from r m' h' show ?thesis by (simp add: Subtract_def)
qed


section \<open>The membership set\<close>

text \<open>
  Claim C1. Every insertion follows the merge rule. \<^verbatim>\<open>AddDirectMember\<close> merges the wrapped
  caveat and \<^verbatim>\<open>AddMemberViaRelationship\<close> the conjunction of the parent's caveat with the
  resource's expression into the entry of the resource id, leaving every other entry as it
  was. \<^verbatim>\<open>UnionWith\<close>, in whatever order it visits the results map, returns exactly when
  the map holds no nil result; the set it returns has, for every id of the map, the merge of
  what was stored with the expression the map gives for the id, has the other ids as they
  were, and has the flag raised exactly when it was raised before or a nil expression came in
  for an id that was not already held with nil. The last four conjuncts spell \<open>merge_rule\<close>
  out: an id not yet present stores the incoming expression, an id stored with a nil
  expression keeps it, an id stored with an expression takes nil when nil comes in and the OR
  node of the two otherwise.
\<close>

theorem addMember_merge_rule:
  assumes "range_order order resultsMap"
  shows "membersByID (AddDirectMember ms resourceID caveat) =
           (membersByID ms)(resourceID \<mapsto>
              merge_rule (membersByID ms resourceID) (wrapCaveat caveat))
       \<and> hasDeterminedMember (AddDirectMember ms resourceID caveat) =
           (hasDeterminedMember ms \<or>
            (wrapCaveat caveat = None \<and> membersByID ms resourceID \<noteq> Some None))
       \<and> membersByID (AddMemberViaRelationship ms resourceID expr parent) =
           (membersByID ms)(resourceID \<mapsto>
              merge_rule (membersByID ms resourceID)
                (caveatAnd (wrapCaveat (Caveat parent)) expr))
       \<and> hasDeterminedMember (AddMemberViaRelationship ms resourceID expr parent) =
           (hasDeterminedMember ms \<or>
            (caveatAnd (wrapCaveat (Caveat parent)) expr = None \<and>
             membersByID ms resourceID \<noteq> Some None))
       \<and> (\<exists>ms'. UnionWith order ms resultsMap = Inr ms') =
           (\<forall>k. resultsMap k \<noteq> Some None)
       \<and> (\<forall>ms'. UnionWith order ms resultsMap = Inr ms' \<longrightarrow>
            (\<forall>k. resultsMap k = None \<longrightarrow> membersByID ms' k = membersByID ms k)
          \<and> (\<forall>k details. resultsMap k = Some (Some details) \<longrightarrow>
               membersByID ms' k =
                 Some (merge_rule (membersByID ms k) (Expression details)))
          \<and> hasDeterminedMember ms' =
              (hasDeterminedMember ms \<or>
               (\<exists>k details. resultsMap k = Some (Some details) \<and> Expression details = None \<and>
                  membersByID ms k \<noteq> Some None)))
       \<and> (\<forall>i. merge_rule None i = i)
       \<and> (\<forall>i. merge_rule (Some None) i = None)
       \<and> (\<forall>e. merge_rule (Some (Some e)) None = None)
       \<and> (\<forall>e i. merge_rule (Some (Some e)) (Some i) =
            Some (CaveatExpression_Operation CaveatOperation_OR [Some e, Some i]))"
proof -
  have mr: "(\<forall>i. merge_rule None i = i)
       \<and> (\<forall>i. merge_rule (Some None) i = None)
       \<and> (\<forall>e. merge_rule (Some (Some e)) None = None)
       \<and> (\<forall>e i. merge_rule (Some (Some e)) (Some i) =
            Some (CaveatExpression_Operation CaveatOperation_OR [Some e, Some i]))"
    by (simp add: merge_rule_def caveatOr_def)
  have a: "membersByID (AddDirectMember ms resourceID caveat) =
           (membersByID ms)(resourceID \<mapsto>
              merge_rule (membersByID ms resourceID) (wrapCaveat caveat))
       \<and> hasDeterminedMember (AddDirectMember ms resourceID caveat) =
           (hasDeterminedMember ms \<or>
            (wrapCaveat caveat = None \<and> membersByID ms resourceID \<noteq> Some None))
       \<and> membersByID (AddMemberViaRelationship ms resourceID expr parent) =
           (membersByID ms)(resourceID \<mapsto>
              merge_rule (membersByID ms resourceID)
                (caveatAnd (wrapCaveat (Caveat parent)) expr))
       \<and> hasDeterminedMember (AddMemberViaRelationship ms resourceID expr parent) =
           (hasDeterminedMember ms \<or>
            (caveatAnd (wrapCaveat (Caveat parent)) expr = None \<and>
             membersByID ms resourceID \<noteq> Some None))"
    by (simp add: AddDirectMember_def AddMemberViaRelationship_def
          addMember_members addMember_determined)
  have ret: "(\<exists>ms'. UnionWith order ms resultsMap = Inr ms') =
           (\<forall>k. resultsMap k \<noteq> Some None)"
  proof
    assume r: "\<exists>ms'. UnionWith order ms resultsMap = Inr ms'"
    show "\<forall>k. resultsMap k \<noteq> Some None"
    proof (intro allI notI)
      fix k
      assume "resultsMap k = Some None"
      from UnionWith_nil [of order resultsMap k ms, OF assms this] r show False by auto
    qed
  next
    assume "\<forall>k. resultsMap k \<noteq> Some None"
    from UnionWith_result [OF assms this, of ms]
    show "\<exists>ms'. UnionWith order ms resultsMap = Inr ms'" by blast
  qed
  have post: "\<forall>ms'. UnionWith order ms resultsMap = Inr ms' \<longrightarrow>
            (\<forall>k. resultsMap k = None \<longrightarrow> membersByID ms' k = membersByID ms k)
          \<and> (\<forall>k details. resultsMap k = Some (Some details) \<longrightarrow>
               membersByID ms' k =
                 Some (merge_rule (membersByID ms k) (Expression details)))
          \<and> hasDeterminedMember ms' =
              (hasDeterminedMember ms \<or>
               (\<exists>k details. resultsMap k = Some (Some details) \<and> Expression details = None \<and>
                  membersByID ms k \<noteq> Some None))"
  proof (intro allI impI)
    fix ms'
    assume r: "UnionWith order ms resultsMap = Inr ms'"
    then have n: "\<forall>k. resultsMap k \<noteq> Some None" using ret by blast
    from UnionWith_result [OF assms n, of ms] r
    have m: "\<forall>k. membersByID ms' k =
        (case resultsMap k of
           Some (Some d) \<Rightarrow> Some (merge_rule (membersByID ms k) (Expression d))
         | _ \<Rightarrow> membersByID ms k)"
      and h: "hasDeterminedMember ms' =
       (hasDeterminedMember ms \<or>
        (\<exists>k d. resultsMap k = Some (Some d) \<and> Expression d = None \<and>
           membersByID ms k \<noteq> Some None))"
      by auto
    have 1: "\<forall>k. resultsMap k = None \<longrightarrow> membersByID ms' k = membersByID ms k"
      by (simp add: m)
    have 2: "\<forall>k details. resultsMap k = Some (Some details) \<longrightarrow>
               membersByID ms' k =
                 Some (merge_rule (membersByID ms k) (Expression details))"
      by (simp add: m)
    from 1 2 h show "(\<forall>k. resultsMap k = None \<longrightarrow> membersByID ms' k = membersByID ms k)
          \<and> (\<forall>k details. resultsMap k = Some (Some details) \<longrightarrow>
               membersByID ms' k =
                 Some (merge_rule (membersByID ms k) (Expression details)))
          \<and> hasDeterminedMember ms' =
              (hasDeterminedMember ms \<or>
               (\<exists>k details. resultsMap k = Some (Some details) \<and> Expression details = None \<and>
                  membersByID ms k \<noteq> Some None))"
      by blast
  qed
  from a ret post mr show ?thesis by blast
qed

text \<open>
  The specification's first scenario: \<open>r1\<close> is held under \<open>C1\<close>; the union with
  \<open>{r1: C2, r2: determined}\<close> leaves \<open>r1\<close> under \<open>OR(C1, C2)\<close>, \<open>r2\<close> determined, and the
  flag raised.
\<close>

theorem addMember_merge_rule_witness:
  "range_order [''r2'', ''r1''] union_example_results
   \<and> (\<exists>ms'. UnionWith [''r2'', ''r1''] union_example_set union_example_results = Inr ms'
        \<and> membersByID ms' ''r1'' =
            Some (Some (CaveatExpression_Operation CaveatOperation_OR
              [Some caveat_C1, Some caveat_C2]))
        \<and> membersByID ms' ''r2'' = Some None
        \<and> hasDeterminedMember ms')"
proof -
  have r: "range_order [''r2'', ''r1''] union_example_results"
    by (auto simp: range_order_def union_example_results_def)
  have m1: "membersByID union_example_set ''r1'' = Some (Some caveat_C1)"
    and m2: "membersByID union_example_set ''r2'' = None"
    by (simp_all add: union_example_set_def AddDirectMember_def addMember_def
          NewMembershipSet_def wrapCaveat_def caveat_C1_def)
  have r1: "union_example_results ''r1'' =
       Some (Some \<lparr>Membership = DispatchCheckResponse_CAVEATED_MEMBER,
                    Expression = Some caveat_C2\<rparr>)"
    and r2: "union_example_results ''r2'' =
       Some (Some \<lparr>Membership = DispatchCheckResponse_MEMBER, Expression = None\<rparr>)"
    by (simp_all add: union_example_results_def)
  have n: "\<forall>k. union_example_results k \<noteq> Some None"
    by (simp add: union_example_results_def)
  note t = addMember_merge_rule [OF r, where ms = union_example_set]
  from t n obtain ms' where
    u: "UnionWith [''r2'', ''r1''] union_example_set union_example_results = Inr ms'"
    by blast
  from t u have
    p: "\<forall>k details. union_example_results k = Some (Some details) \<longrightarrow>
          membersByID ms' k =
            Some (merge_rule (membersByID union_example_set k) (Expression details))" and
    h: "hasDeterminedMember ms' =
          (hasDeterminedMember union_example_set \<or>
           (\<exists>k details. union_example_results k = Some (Some details) \<and>
              Expression details = None \<and> membersByID union_example_set k \<noteq> Some None))"
    by blast+
  have a: "membersByID ms' ''r1'' =
      Some (Some (CaveatExpression_Operation CaveatOperation_OR
        [Some caveat_C1, Some caveat_C2]))"
    using p [rule_format, OF r1] by (simp add: m1 merge_rule_def caveatOr_def)
  have b: "membersByID ms' ''r2'' = Some None"
    using p [rule_format, OF r2] by (simp add: m2 merge_rule_def)
  have "\<exists>k details. union_example_results k = Some (Some details) \<and>
      Expression details = None \<and> membersByID union_example_set k \<noteq> Some None"
    using r2 m2 by (intro exI [of _ "''r2''"]) simp
  with h have c: "hasDeterminedMember ms'" by simp
  from r u a b c show ?thesis by blast
qed

text \<open>
  Claim C2. \<^verbatim>\<open>IntersectWith\<close>, for any order of its two loops, returns exactly when no id of
  the set has a nil result in the map, and in the set it returns: an id that the results map
  lacks is gone; no id is added; an id held with a nil expression whose result has a nil
  expression stays nil and raises the flag; every other surviving id holds \<^verbatim>\<open>caveatAnd\<close>
  of the two, which is the other operand when one is nil and an AND node otherwise. The flag
  ends up raised exactly when some id was nil on both sides.
\<close>

theorem IntersectWith_rule:
  assumes "range_order memberOrder (membersByID ms)"
    and "range_order resultOrder resultsMap"
  shows "(\<exists>ms'. IntersectWith memberOrder resultOrder ms resultsMap = Inr ms') =
           (\<forall>k. membersByID ms k \<noteq> None \<longrightarrow> resultsMap k \<noteq> Some None)
       \<and> (\<forall>ms'. IntersectWith memberOrder resultOrder ms resultsMap = Inr ms' \<longrightarrow>
            (\<forall>k. resultsMap k = None \<longrightarrow> membersByID ms' k = None)
          \<and> (\<forall>k. membersByID ms k = None \<longrightarrow> membersByID ms' k = None)
          \<and> (\<forall>k details.
               membersByID ms k = Some None \<and> resultsMap k = Some (Some details) \<and>
               Expression details = None \<longrightarrow>
               membersByID ms' k = Some None \<and> hasDeterminedMember ms')
          \<and> (\<forall>k e details.
               membersByID ms k = Some e \<and> resultsMap k = Some (Some details) \<and>
               \<not> (e = None \<and> Expression details = None) \<longrightarrow>
               membersByID ms' k = Some (caveatAnd e (Expression details)))
          \<and> hasDeterminedMember ms' =
              (\<exists>k details. membersByID ms k = Some None \<and>
                 resultsMap k = Some (Some details) \<and> Expression details = None))
       \<and> (\<forall>r. caveatAnd None r = r)
       \<and> (\<forall>e. caveatAnd e None = e)
       \<and> (\<forall>e r. caveatAnd (Some e) (Some r) =
            Some (CaveatExpression_Operation CaveatOperation_AND [Some e, Some r]))"
proof -
  have ret: "(\<exists>ms'. IntersectWith memberOrder resultOrder ms resultsMap = Inr ms') =
           (\<forall>k. membersByID ms k \<noteq> None \<longrightarrow> resultsMap k \<noteq> Some None)"
  proof
    assume r: "\<exists>ms'. IntersectWith memberOrder resultOrder ms resultsMap = Inr ms'"
    show "\<forall>k. membersByID ms k \<noteq> None \<longrightarrow> resultsMap k \<noteq> Some None"
    proof (intro allI impI notI)
      fix k
      assume "membersByID ms k \<noteq> None" and "resultsMap k = Some None"
      from IntersectWith_nil [of resultOrder resultsMap ms k memberOrder, OF assms(2) this] r
      show False by auto
    qed
  next
    assume "\<forall>k. membersByID ms k \<noteq> None \<longrightarrow> resultsMap k \<noteq> Some None"
    from IntersectWith_result [OF assms this]
    show "\<exists>ms'. IntersectWith memberOrder resultOrder ms resultsMap = Inr ms'" by blast
  qed
  have post: "\<forall>ms'. IntersectWith memberOrder resultOrder ms resultsMap = Inr ms' \<longrightarrow>
            (\<forall>k. resultsMap k = None \<longrightarrow> membersByID ms' k = None)
          \<and> (\<forall>k. membersByID ms k = None \<longrightarrow> membersByID ms' k = None)
          \<and> (\<forall>k details.
               membersByID ms k = Some None \<and> resultsMap k = Some (Some details) \<and>
               Expression details = None \<longrightarrow>
               membersByID ms' k = Some None \<and> hasDeterminedMember ms')
          \<and> (\<forall>k e details.
               membersByID ms k = Some e \<and> resultsMap k = Some (Some details) \<and>
               \<not> (e = None \<and> Expression details = None) \<longrightarrow>
               membersByID ms' k = Some (caveatAnd e (Expression details)))
          \<and> hasDeterminedMember ms' =
              (\<exists>k details. membersByID ms k = Some None \<and>
                 resultsMap k = Some (Some details) \<and> Expression details = None)"
  proof (intro allI impI)
    fix ms'
    assume r: "IntersectWith memberOrder resultOrder ms resultsMap = Inr ms'"
    then have n: "\<forall>k. membersByID ms k \<noteq> None \<longrightarrow> resultsMap k \<noteq> Some None"
      using ret by blast
    from IntersectWith_result [OF assms n] r
    have m: "\<forall>k. membersByID ms' k =
        (case membersByID ms k of
           None \<Rightarrow> None
         | Some existing \<Rightarrow>
             (case resultsMap k of
                Some (Some d) \<Rightarrow>
                  Some (if existing = None \<and> Expression d = None then None
                        else caveatAnd existing (Expression d))
              | _ \<Rightarrow> None))"
      and h: "hasDeterminedMember ms' =
       (\<exists>k d. membersByID ms k = Some None \<and> resultsMap k = Some (Some d) \<and>
          Expression d = None)"
      by auto
    have 1: "\<forall>k. resultsMap k = None \<longrightarrow> membersByID ms' k = None"
      by (simp add: m split: option.split)
    have 2: "\<forall>k. membersByID ms k = None \<longrightarrow> membersByID ms' k = None"
      by (simp add: m)
    have 3: "\<forall>k details.
               membersByID ms k = Some None \<and> resultsMap k = Some (Some details) \<and>
               Expression details = None \<longrightarrow>
               membersByID ms' k = Some None \<and> hasDeterminedMember ms'"
      using h by (auto simp: m)
    have 4: "\<forall>k e details.
               membersByID ms k = Some e \<and> resultsMap k = Some (Some details) \<and>
               \<not> (e = None \<and> Expression details = None) \<longrightarrow>
               membersByID ms' k = Some (caveatAnd e (Expression details))"
      by (auto simp: m)
    from 1 2 3 4 h show "(\<forall>k. resultsMap k = None \<longrightarrow> membersByID ms' k = None)
          \<and> (\<forall>k. membersByID ms k = None \<longrightarrow> membersByID ms' k = None)
          \<and> (\<forall>k details.
               membersByID ms k = Some None \<and> resultsMap k = Some (Some details) \<and>
               Expression details = None \<longrightarrow>
               membersByID ms' k = Some None \<and> hasDeterminedMember ms')
          \<and> (\<forall>k e details.
               membersByID ms k = Some e \<and> resultsMap k = Some (Some details) \<and>
               \<not> (e = None \<and> Expression details = None) \<longrightarrow>
               membersByID ms' k = Some (caveatAnd e (Expression details)))
          \<and> hasDeterminedMember ms' =
              (\<exists>k details. membersByID ms k = Some None \<and>
                 resultsMap k = Some (Some details) \<and> Expression details = None)"
      by blast
  qed
  have 5: "(\<forall>r. caveatAnd None r = r) \<and> (\<forall>e. caveatAnd e None = e)
       \<and> (\<forall>e r. caveatAnd (Some e) (Some r) =
            Some (CaveatExpression_Operation CaveatOperation_AND [Some e, Some r]))"
    by (simp add: caveatAnd_def)
  from ret post 5 show ?thesis by blast
qed

text \<open>
  The specification's second scenario: \<open>{r1: determined, r2: C1}\<close> intersected with
  \<open>{r2: determined, r3: C2}\<close> is \<open>{r2: C1}\<close>, and the flag is down.
\<close>

theorem IntersectWith_rule_witness:
  "range_order [''r2'', ''r1''] (membersByID intersect_example_set)
   \<and> range_order [''r3'', ''r2''] intersect_example_results
   \<and> (\<exists>ms'. IntersectWith [''r2'', ''r1''] [''r3'', ''r2'']
               intersect_example_set intersect_example_results = Inr ms'
        \<and> membersByID ms' ''r1'' = None
        \<and> membersByID ms' ''r2'' = Some (Some caveat_C1)
        \<and> membersByID ms' ''r3'' = None
        \<and> \<not> hasDeterminedMember ms')"
proof -
  have a: "range_order [''r2'', ''r1''] (membersByID intersect_example_set)"
    by (auto simp: range_order_def intersect_example_set_def)
  have b: "range_order [''r3'', ''r2''] intersect_example_results"
    by (auto simp: range_order_def intersect_example_results_def)
  note t = IntersectWith_rule [OF a b]
  have r1: "intersect_example_results ''r1'' = None"
    and r2: "intersect_example_results ''r2'' =
      Some (Some \<lparr>Membership = DispatchCheckResponse_MEMBER, Expression = None\<rparr>)"
    and m2: "membersByID intersect_example_set ''r2'' = Some (Some caveat_C1)"
    and m3: "membersByID intersect_example_set ''r3'' = None"
    by (simp_all add: intersect_example_results_def intersect_example_set_def)
  have n: "\<forall>k. membersByID intersect_example_set k \<noteq> None \<longrightarrow>
             intersect_example_results k \<noteq> Some None"
    by (simp add: intersect_example_results_def)
  from t n obtain ms' where
    u: "IntersectWith [''r2'', ''r1''] [''r3'', ''r2'']
          intersect_example_set intersect_example_results = Inr ms'"
    by blast
  from t u have
    p1: "\<forall>k. intersect_example_results k = None \<longrightarrow> membersByID ms' k = None" and
    p2: "\<forall>k. membersByID intersect_example_set k = None \<longrightarrow> membersByID ms' k = None" and
    p4: "\<forall>k e details.
           membersByID intersect_example_set k = Some e \<and>
           intersect_example_results k = Some (Some details) \<and>
           \<not> (e = None \<and> Expression details = None) \<longrightarrow>
           membersByID ms' k = Some (caveatAnd e (Expression details))" and
    h: "hasDeterminedMember ms' =
          (\<exists>k details. membersByID intersect_example_set k = Some None \<and>
             intersect_example_results k = Some (Some details) \<and> Expression details = None)"
    by blast+
  from p1 r1 have k1: "membersByID ms' ''r1'' = None" by blast
  from p2 m3 have k3: "membersByID ms' ''r3'' = None" by blast
  have k2: "membersByID ms' ''r2'' = Some (Some caveat_C1)"
    using p4 [rule_format, of "''r2''" "Some caveat_C1"
        "\<lparr>Membership = DispatchCheckResponse_MEMBER, Expression = None\<rparr>"] m2 r2
    by (simp add: caveatAnd_def)
  have nh: "\<not> hasDeterminedMember ms'"
    unfolding h
    by (auto simp: intersect_example_set_def intersect_example_results_def split: if_splits)
  from a b u k1 k2 k3 nh show ?thesis by blast
qed

text \<open>
  Claim C3. \<^verbatim>\<open>Subtract\<close>, for any order of its loop, returns exactly when no id of the set
  has a nil result in the map, and in the set it returns: an id the results map lacks is as
  it was; an id whose result has a nil expression is gone; any other id of the set holds what
  \<^verbatim>\<open>caveatSub\<close> returns for the stored and the incoming expression, which is \<open>NOT(r)\<close> when
  the stored one is nil and \<open>AND(e, NOT(r))\<close> otherwise; nothing is added. The flag, reset at
  the start, ends up raised exactly when an id held with nil is missing from the results map,
  which is exactly when the resulting set holds an id with nil.
\<close>

theorem Subtract_rule:
  assumes "range_order order (membersByID ms)"
  shows "(\<exists>ms'. Subtract order ms resultsMap = Inr ms') =
           (\<forall>k. membersByID ms k \<noteq> None \<longrightarrow> resultsMap k \<noteq> Some None)
       \<and> (\<forall>ms'. Subtract order ms resultsMap = Inr ms' \<longrightarrow>
            (\<forall>k. membersByID ms k = None \<longrightarrow> membersByID ms' k = None)
          \<and> (\<forall>k. resultsMap k = None \<longrightarrow> membersByID ms' k = membersByID ms k)
          \<and> (\<forall>k details. resultsMap k = Some (Some details) \<and> Expression details = None \<longrightarrow>
               membersByID ms' k = None)
          \<and> (\<forall>k e details r.
               membersByID ms k = Some e \<and> resultsMap k = Some (Some details) \<and>
               Expression details = Some r \<longrightarrow>
               (\<exists>v. caveatSub e (Some r) = Inr v \<and> membersByID ms' k = Some v))
          \<and> hasDeterminedMember ms' =
              (\<exists>k. membersByID ms k = Some None \<and> resultsMap k = None)
          \<and> hasDeterminedMember ms' = (\<exists>k. membersByID ms' k = Some None))
       \<and> (\<forall>r. caveatSub None (Some r) =
            Inr (Some (CaveatExpression_Operation CaveatOperation_NOT [Some r])))
       \<and> (\<forall>e r. caveatSub (Some e) (Some r) =
            Inr (Some (CaveatExpression_Operation CaveatOperation_AND
              [Some e, Some (CaveatExpression_Operation CaveatOperation_NOT [Some r])])))"
proof -
  have ret: "(\<exists>ms'. Subtract order ms resultsMap = Inr ms') =
           (\<forall>k. membersByID ms k \<noteq> None \<longrightarrow> resultsMap k \<noteq> Some None)"
  proof
    assume r: "\<exists>ms'. Subtract order ms resultsMap = Inr ms'"
    show "\<forall>k. membersByID ms k \<noteq> None \<longrightarrow> resultsMap k \<noteq> Some None"
    proof (intro allI impI notI)
      fix k
      assume "membersByID ms k \<noteq> None" and "resultsMap k = Some None"
      from Subtract_nil [of order ms k resultsMap, OF assms this] r
      show False by auto
    qed
  next
    assume "\<forall>k. membersByID ms k \<noteq> None \<longrightarrow> resultsMap k \<noteq> Some None"
    from Subtract_result [OF assms this]
    show "\<exists>ms'. Subtract order ms resultsMap = Inr ms'" by blast
  qed
  have post: "\<forall>ms'. Subtract order ms resultsMap = Inr ms' \<longrightarrow>
            (\<forall>k. membersByID ms k = None \<longrightarrow> membersByID ms' k = None)
          \<and> (\<forall>k. resultsMap k = None \<longrightarrow> membersByID ms' k = membersByID ms k)
          \<and> (\<forall>k details. resultsMap k = Some (Some details) \<and> Expression details = None \<longrightarrow>
               membersByID ms' k = None)
          \<and> (\<forall>k e details r.
               membersByID ms k = Some e \<and> resultsMap k = Some (Some details) \<and>
               Expression details = Some r \<longrightarrow>
               (\<exists>v. caveatSub e (Some r) = Inr v \<and> membersByID ms' k = Some v))
          \<and> hasDeterminedMember ms' =
              (\<exists>k. membersByID ms k = Some None \<and> resultsMap k = None)
          \<and> hasDeterminedMember ms' = (\<exists>k. membersByID ms' k = Some None)"
  proof (intro allI impI)
    fix ms'
    assume r: "Subtract order ms resultsMap = Inr ms'"
    then have n: "\<forall>k. membersByID ms k \<noteq> None \<longrightarrow> resultsMap k \<noteq> Some None"
      using ret by blast
    from Subtract_result [OF assms n] r
    have m: "\<forall>k. membersByID ms' k =
               subtraction_rule (membersByID ms k) (Option.bind (resultsMap k) id)"
      and h: "hasDeterminedMember ms' =
               (\<exists>k. membersByID ms k = Some None \<and> resultsMap k = None)"
      by auto
    have 1: "\<forall>k. membersByID ms k = None \<longrightarrow> membersByID ms' k = None"
      by (simp add: m subtraction_rule_def)
    have 2: "\<forall>k. resultsMap k = None \<longrightarrow> membersByID ms' k = membersByID ms k"
      by (simp add: m subtraction_rule_def split: option.split)
    have 3: "\<forall>k details. resultsMap k = Some (Some details) \<and> Expression details = None \<longrightarrow>
            membersByID ms' k = None"
      by (simp add: m subtraction_rule_def split: option.split)
    have 4: "\<forall>k e details r.
            membersByID ms k = Some e \<and> resultsMap k = Some (Some details) \<and>
            Expression details = Some r \<longrightarrow>
            (\<exists>v. caveatSub e (Some r) = Inr v \<and> membersByID ms' k = Some v)"
      by (simp add: m subtraction_rule_def caveatSub_present)
    have "(membersByID ms' k = Some None) =
             (membersByID ms k = Some None \<and> resultsMap k = None)" for k
    proof (cases "resultsMap k")
      case None
      then show ?thesis
        by (auto simp: m subtraction_rule_def split: option.splits)
    next
      case (Some details)
      with n [rule_format, of k] show ?thesis
        by (cases details)
           (auto simp: m subtraction_rule_def invert_def split: option.splits if_splits)
    qed
    with h have 7: "hasDeterminedMember ms' = (\<exists>k. membersByID ms' k = Some None)"
      by simp
    from 1 2 3 4 h 7
    show "(\<forall>k. membersByID ms k = None \<longrightarrow> membersByID ms' k = None)
          \<and> (\<forall>k. resultsMap k = None \<longrightarrow> membersByID ms' k = membersByID ms k)
          \<and> (\<forall>k details. resultsMap k = Some (Some details) \<and> Expression details = None \<longrightarrow>
               membersByID ms' k = None)
          \<and> (\<forall>k e details r.
               membersByID ms k = Some e \<and> resultsMap k = Some (Some details) \<and>
               Expression details = Some r \<longrightarrow>
               (\<exists>v. caveatSub e (Some r) = Inr v \<and> membersByID ms' k = Some v))
          \<and> hasDeterminedMember ms' =
              (\<exists>k. membersByID ms k = Some None \<and> resultsMap k = None)
          \<and> hasDeterminedMember ms' = (\<exists>k. membersByID ms' k = Some None)"
      by blast
  qed
  have 5: "\<forall>r. caveatSub None (Some r) =
            Inr (Some (CaveatExpression_Operation CaveatOperation_NOT [Some r]))"
    by (simp add: caveatSub_present invert_def)
  have 6: "\<forall>e r. caveatSub (Some e) (Some r) =
            Inr (Some (CaveatExpression_Operation CaveatOperation_AND
              [Some e, Some (CaveatExpression_Operation CaveatOperation_NOT [Some r])]))"
    by (simp add: caveatSub_present invert_def)
  from ret post 5 6 show ?thesis by blast
qed

text \<open>
  The specification's third and fourth scenarios in one: from
  \<open>{r1: C1, r2: determined, r3: determined, r4: determined}\<close> subtract
  \<open>{r1: C2, r2: determined, r3: C2}\<close>.
\<close>

theorem Subtract_rule_witness:
  "range_order [''r4'', ''r3'', ''r2'', ''r1''] (membersByID subtract_example_set)
   \<and> (\<exists>ms'. Subtract [''r4'', ''r3'', ''r2'', ''r1'']
               subtract_example_set subtract_example_results = Inr ms'
        \<and> membersByID ms' ''r1'' =
            Some (Some (CaveatExpression_Operation CaveatOperation_AND
              [Some caveat_C1,
               Some (CaveatExpression_Operation CaveatOperation_NOT [Some caveat_C2])]))
        \<and> membersByID ms' ''r2'' = None
        \<and> membersByID ms' ''r3'' =
            Some (Some (CaveatExpression_Operation CaveatOperation_NOT [Some caveat_C2]))
        \<and> membersByID ms' ''r4'' = Some None
        \<and> hasDeterminedMember ms')"
proof -
  have a: "range_order [''r4'', ''r3'', ''r2'', ''r1''] (membersByID subtract_example_set)"
    by (auto simp: range_order_def subtract_example_set_def)
  have m1: "membersByID subtract_example_set ''r1'' = Some (Some caveat_C1)"
    and m3: "membersByID subtract_example_set ''r3'' = Some None"
    and m4: "membersByID subtract_example_set ''r4'' = Some None"
    and r1: "subtract_example_results ''r1'' =
      Some (Some \<lparr>Membership = DispatchCheckResponse_CAVEATED_MEMBER,
                   Expression = Some caveat_C2\<rparr>)"
    and r2: "subtract_example_results ''r2'' =
      Some (Some \<lparr>Membership = DispatchCheckResponse_MEMBER, Expression = None\<rparr>)"
    and r3: "subtract_example_results ''r3'' =
      Some (Some \<lparr>Membership = DispatchCheckResponse_CAVEATED_MEMBER,
                   Expression = Some caveat_C2\<rparr>)"
    and r4: "subtract_example_results ''r4'' = None"
    by (simp_all add: subtract_example_set_def subtract_example_results_def)
  have n: "\<forall>k. membersByID subtract_example_set k \<noteq> None \<longrightarrow>
             subtract_example_results k \<noteq> Some None"
    by (simp add: subtract_example_results_def)
  note t = Subtract_rule [OF a, of subtract_example_results]
  from t n obtain ms' where
    r: "Subtract [''r4'', ''r3'', ''r2'', ''r1'']
          subtract_example_set subtract_example_results = Inr ms'"
    by blast
  from t r have
    keep: "\<forall>k. subtract_example_results k = None \<longrightarrow>
             membersByID ms' k = membersByID subtract_example_set k" and
    del: "\<forall>k details. subtract_example_results k = Some (Some details) \<and>
            Expression details = None \<longrightarrow> membersByID ms' k = None" and
    sub: "\<forall>k e details r.
            membersByID subtract_example_set k = Some e \<and>
            subtract_example_results k = Some (Some details) \<and> Expression details = Some r \<longrightarrow>
            (\<exists>v. caveatSub e (Some r) = Inr v \<and> membersByID ms' k = Some v)" and
    h: "hasDeterminedMember ms' = (\<exists>k. membersByID ms' k = Some None)"
    by blast+
  from keep r4 m4 have k4: "membersByID ms' ''r4'' = Some None" by simp
  from del r2 have k2: "membersByID ms' ''r2'' = None" by simp
  have "\<exists>v. caveatSub (Some caveat_C1) (Some caveat_C2) = Inr v \<and>
      membersByID ms' ''r1'' = Some v"
    using sub [rule_format, of "''r1''" "Some caveat_C1" _ caveat_C2] m1 r1 by simp
  then have k1: "membersByID ms' ''r1'' =
            Some (Some (CaveatExpression_Operation CaveatOperation_AND
              [Some caveat_C1,
               Some (CaveatExpression_Operation CaveatOperation_NOT [Some caveat_C2])]))"
    by (auto simp: caveatSub_def invert_def)
  have "\<exists>v. caveatSub None (Some caveat_C2) = Inr v \<and>
      membersByID ms' ''r3'' = Some v"
    using sub [rule_format, of "''r3''" None _ caveat_C2] m3 r3 by simp
  then have k3: "membersByID ms' ''r3'' =
            Some (Some (CaveatExpression_Operation CaveatOperation_NOT [Some caveat_C2]))"
    by (auto simp: caveatSub_def invert_def)
  from h k4 have d: "hasDeterminedMember ms'" by blast
  from a r k1 k2 k3 k4 d show ?thesis by blast
qed

text \<open>
  Claim C4 says that \<^verbatim>\<open>caveatSub\<close> panics on a nil subtrahend whatever the minuend. With
  a minuend it does; with a nil minuend the early return comes before the check, and the call
  returns a NOT node whose only child is nil.
\<close>

theorem caveatSub_nil_nil:
  "caveatSub None None = Inr (Some (CaveatExpression_Operation CaveatOperation_NOT [None]))
   \<and> (\<forall>a. caveatSub (Some a) None = Inl (Panic ''subtraction caveat expression is nil''))"
  by (simp add: caveatSub_def invert_def)

text \<open>
  Claim C10 says that \<^verbatim>\<open>Subtract\<close> never aborts, on any results map. It does abort on a
  map that holds an id of the set with a nil result: the loop reads \<^verbatim>\<open>details.Expression\<close>
  through the nil pointer.
\<close>

theorem Subtract_panics_on_nil_result:
  "range_order [''r1''] (membersByID nil_result_set)
   \<and> Subtract [''r1''] nil_result_set nil_result_map = Inl NilDereference"
  by (simp add: range_order_def nil_result_set_def nil_result_map_def Subtract_def)

text \<open>
  Claim C10, amended. That is the only way \<^verbatim>\<open>Subtract\<close> aborts. On every set, every
  results map and every order of the visit, the panic of \<^verbatim>\<open>caveatSub\<close> is out of reach:
  \<^verbatim>\<open>Subtract\<close> never ends in an explicit panic, it ends in the nil dereference exactly when
  it visits an id of the set whose result is nil (under a range order: exactly when the set
  has such an id), and it returns on every map without one. The logged loop computes what
  \<^verbatim>\<open>Subtract\<close> computes, and every call of \<^verbatim>\<open>caveatSub\<close> in its log has a subtrahend that
  is not nil, since an id whose result has a nil expression is deleted before; each such call
  returns.
\<close>

theorem Subtract_caveatSub_panic_unreachable:
  "(\<forall>p. Subtract order ms resultsMap \<noteq> Inl (Panic p))
   \<and> (Subtract order ms resultsMap = Inl NilDereference) =
       (\<exists>k\<in>set order. membersByID ms k \<noteq> None \<and> resultsMap k = Some None)
   \<and> (range_order order (membersByID ms) \<longrightarrow>
        (Subtract order ms resultsMap = Inl NilDereference) =
          (\<exists>k. membersByID ms k \<noteq> None \<and> resultsMap k = Some None))
   \<and> ((\<forall>k. membersByID ms k \<noteq> None \<longrightarrow> resultsMap k \<noteq> Some None) \<longrightarrow>
        (\<exists>ms'. Subtract order ms resultsMap = Inr ms'))
   \<and> snd (Subtract_calls order ms resultsMap) = Subtract order ms resultsMap
   \<and> (\<forall>(a, b)\<in>set (fst (Subtract_calls order ms resultsMap)).
        b \<noteq> None \<and> (\<exists>v. caveatSub a b = Inr v))"
proof -
  let ?ms0 = "ms\<lparr>hasDeterminedMember := False\<rparr>"
  let ?nil = "\<exists>k\<in>set order. membersByID ms k \<noteq> None \<and> resultsMap k = Some None"
  have nil: "Subtract order ms resultsMap = Inl NilDereference" if ?nil
  proof -
    from that obtain k where "k \<in> set order" and "membersByID ?ms0 k \<noteq> None"
      and "resultsMap k = Some None"
      by auto
    then show ?thesis unfolding Subtract_def by (rule Subtract_range_nil)
  qed
  have ok: "\<exists>ms'. Subtract order ms resultsMap = Inr ms'" if "\<not> ?nil"
  proof -
    from that
    have "\<forall>k\<in>set order. membersByID ?ms0 k \<noteq> None \<longrightarrow> resultsMap k \<noteq> Some None"
      by auto
    then show ?thesis unfolding Subtract_def by (rule Subtract_range_total)
  qed
  have 1: "\<forall>p. Subtract order ms resultsMap \<noteq> Inl (Panic p)"
    using nil ok by (cases ?nil) auto
  have 2: "(Subtract order ms resultsMap = Inl NilDereference) = ?nil"
    using nil ok by (cases ?nil) auto
  have 3: "range_order order (membersByID ms) \<longrightarrow>
        (Subtract order ms resultsMap = Inl NilDereference) =
          (\<exists>k. membersByID ms k \<noteq> None \<and> resultsMap k = Some None)"
    unfolding 2 by (auto simp: range_order_def)
  have 4: "(\<forall>k. membersByID ms k \<noteq> None \<longrightarrow> resultsMap k \<noteq> Some None) \<longrightarrow>
        (\<exists>ms'. Subtract order ms resultsMap = Inr ms')"
    using ok by blast
  have 5: "snd (Subtract_calls order ms resultsMap) = Subtract order ms resultsMap"
    by (simp add: Subtract_calls_def Subtract_def Subtract_range_calls_result)
  have "\<forall>c\<in>set (fst (Subtract_calls order ms resultsMap)). snd c \<noteq> None"
    unfolding Subtract_calls_def by (rule Subtract_range_calls_arguments) simp
  then have 6: "\<forall>(a, b)\<in>set (fst (Subtract_calls order ms resultsMap)).
        b \<noteq> None \<and> (\<exists>v. caveatSub a b = Inr v)"
    by (auto simp: caveatSub_present)
  from 1 2 3 4 5 6 show ?thesis by blast
qed

text \<open>
  On the set and the map of the subtraction scenario \<^verbatim>\<open>Subtract\<close> returns after two calls
  of \<^verbatim>\<open>caveatSub\<close>, for \<open>r1\<close> and for \<open>r3\<close>; on the map with the nil result it does not end
  in the panic of \<^verbatim>\<open>caveatSub\<close>.
\<close>

theorem Subtract_caveatSub_panic_unreachable_witness:
  "(\<exists>ms'. Subtract [''r1'', ''r2'', ''r3'', ''r4''] subtract_example_set
            subtract_example_results = Inr ms')
   \<and> fst (Subtract_calls [''r1'', ''r2'', ''r3'', ''r4''] subtract_example_set
        subtract_example_results) =
       [(Some caveat_C1, Some caveat_C2), (None, Some caveat_C2)]
   \<and> caveatSub (Some caveat_C1) (Some caveat_C2) =
       Inr (Some (CaveatExpression_Operation CaveatOperation_AND
         [Some caveat_C1,
          Some (CaveatExpression_Operation CaveatOperation_NOT [Some caveat_C2])]))
   \<and> Subtract [''r1''] nil_result_set nil_result_map \<noteq>
       Inl (Panic ''subtraction caveat expression is nil'')"
proof -
  note t = Subtract_caveatSub_panic_unreachable
    [of "[''r1'', ''r2'', ''r3'', ''r4'']" subtract_example_set subtract_example_results]
  have n: "\<forall>k. membersByID subtract_example_set k \<noteq> None \<longrightarrow>
             subtract_example_results k \<noteq> Some None"
    by (simp add: subtract_example_results_def)
  from t n have a: "\<exists>ms'. Subtract [''r1'', ''r2'', ''r3'', ''r4''] subtract_example_set
            subtract_example_results = Inr ms'"
    by blast
  have b: "fst (Subtract_calls [''r1'', ''r2'', ''r3'', ''r4''] subtract_example_set
        subtract_example_results) =
       [(Some caveat_C1, Some caveat_C2), (None, Some caveat_C2)]"
    by (simp add: Subtract_calls_def subtract_example_set_def subtract_example_results_def
          caveatSub_present)
  from t b have "\<exists>v. caveatSub (Some caveat_C1) (Some caveat_C2) = Inr v"
    by auto
  then have c: "caveatSub (Some caveat_C1) (Some caveat_C2) =
       Inr (Some (CaveatExpression_Operation CaveatOperation_AND
         [Some caveat_C1,
          Some (CaveatExpression_Operation CaveatOperation_NOT [Some caveat_C2])]))"
    by (simp add: caveatSub_def invert_def)
  have d: "Subtract [''r1''] nil_result_set nil_result_map \<noteq>
       Inl (Panic ''subtraction caveat expression is nil'')"
    using Subtract_caveatSub_panic_unreachable [of "[''r1'']" nil_result_set nil_result_map]
    by blast
  from a b c d show ?thesis by blast
qed


section \<open>The flag and the map agree\<close>

lemma consistent_New: "consistent NewMembershipSet"
  by (simp add: consistent_def NewMembershipSet_def)

lemma merge_rule_nil:
  "(merge_rule stored incoming = None) =
     (stored = Some None \<or> incoming = None)"
  by (auto simp: merge_rule_def caveatOr_def split: option.splits)

lemma consistent_addMember:
  assumes "consistent ms"
  shows "consistent (addMember ms resourceID caveatExpr)"
proof -
  let ?ms = "addMember ms resourceID caveatExpr"
  have "(\<exists>k. membersByID ?ms k = Some None) =
        (merge_rule (membersByID ms resourceID) caveatExpr = None \<or>
         (\<exists>k. k \<noteq> resourceID \<and> membersByID ms k = Some None))"
    by (auto simp: addMember_members)
  also have "\<dots> = ((\<exists>k. membersByID ms k = Some None) \<or>
       (caveatExpr = None \<and> membersByID ms resourceID \<noteq> Some None))"
    unfolding merge_rule_nil by metis
  finally show ?thesis
    using assms by (simp add: consistent_def addMember_determined)
qed

lemma consistent_UnionWith_range:
  "consistent ms \<Longrightarrow> UnionWith_range ks R ms = Inr ms' \<Longrightarrow> consistent ms'"
proof (induction ks arbitrary: ms)
  case Nil
  then show ?case by simp
next
  case (Cons a ks)
  show ?case
  proof (cases "R a")
    case None
    with Cons show ?thesis by simp
  next
    case (Some details)
    show ?thesis
    proof (cases details)
      case None
      with Some Cons.prems show ?thesis by simp
    next
      case d: (Some d)
      with Some Cons.prems
      have "UnionWith_range ks R (addMember ms a (Expression d)) = Inr ms'" by simp
      with Cons.IH [OF consistent_addMember [OF Cons.prems(1)]] show ?thesis by blast
    qed
  qed
qed

lemma consistent_IntersectWith:
  assumes "range_order memberOrder (membersByID ms)" and "range_order resultOrder R"
    and "IntersectWith memberOrder resultOrder ms R = Inr ms'"
  shows "consistent ms'"
proof -
  have n: "\<forall>k. membersByID ms k \<noteq> None \<longrightarrow> R k \<noteq> Some None"
  proof (intro allI impI notI)
    fix k
    assume "membersByID ms k \<noteq> None" and "R k = Some None"
    from IntersectWith_nil [of resultOrder R ms k memberOrder, OF assms(2) this] assms(3)
    show False by simp
  qed
  from IntersectWith_result [OF assms(1,2) n] assms(3)
  have m: "\<forall>k. membersByID ms' k =
        (case membersByID ms k of
           None \<Rightarrow> None
         | Some existing \<Rightarrow>
             (case R k of
                Some (Some d) \<Rightarrow>
                  Some (if existing = None \<and> Expression d = None then None
                        else caveatAnd existing (Expression d))
              | _ \<Rightarrow> None))"
    and h: "hasDeterminedMember ms' =
       (\<exists>k d. membersByID ms k = Some None \<and> R k = Some (Some d) \<and> Expression d = None)"
    by auto
  have "\<And>k. (membersByID ms' k = Some None) =
      (\<exists>d. membersByID ms k = Some None \<and> R k = Some (Some d) \<and> Expression d = None)"
    unfolding m [rule_format]
    by (auto simp: caveatAnd_def split: option.splits)
  then show ?thesis
    unfolding consistent_def h by blast
qed

lemma consistent_Subtract:
  assumes "range_order order (membersByID ms)" and "Subtract order ms R = Inr ms'"
  shows "consistent ms'"
proof -
  have n: "\<forall>k. membersByID ms k \<noteq> None \<longrightarrow> R k \<noteq> Some None"
  proof (intro allI impI notI)
    fix k
    assume "membersByID ms k \<noteq> None" and "R k = Some None"
    from Subtract_nil [of order ms k R, OF assms(1) this] assms(2) show False by simp
  qed
  from Subtract_result [OF assms(1) n] assms(2)
  have m: "\<forall>k. membersByID ms' k = subtraction_rule (membersByID ms k) (Option.bind (R k) id)"
    and h: "hasDeterminedMember ms' = (\<exists>k. membersByID ms k = Some None \<and> R k = None)"
    by auto
  have "(membersByID ms' k = Some None) = (membersByID ms k = Some None \<and> R k = None)" for k
  proof (cases "R k")
    case None
    then show ?thesis
      by (auto simp: m subtraction_rule_def split: option.splits)
  next
    case (Some details)
    with n [rule_format, of k] show ?thesis
      by (cases details)
         (auto simp: m subtraction_rule_def invert_def split: option.splits if_splits)
  qed
  with h show ?thesis by (simp add: consistent_def)
qed

lemma reachable_consistent: "reachable ms \<Longrightarrow> consistent ms"
proof (induction rule: reachable.induct)
  case reachable_New
  show ?case by (rule consistent_New)
next
  case (reachable_AddDirectMember ms resourceID caveat)
  then show ?case by (simp add: AddDirectMember_def consistent_addMember)
next
  case (reachable_AddMemberViaRelationship ms resourceID resourceCaveatExpression parentRelationship)
  then show ?case by (simp add: AddMemberViaRelationship_def consistent_addMember)
next
  case (reachable_UnionWith ms order resultsMap ms')
  then show ?case by (auto simp: UnionWith_def intro: consistent_UnionWith_range)
next
  case (reachable_IntersectWith ms memberOrder resultOrder resultsMap ms')
  then show ?case by (blast intro: consistent_IntersectWith)
next
  case (reachable_Subtract ms order resultsMap ms')
  then show ?case by (blast intro: consistent_Subtract)
qed

text \<open>
  Claim C5. On every membership set built from the empty one by the public operations
  (\<^verbatim>\<open>AddDirectMember\<close>, \<^verbatim>\<open>AddMemberViaRelationship\<close>, \<^verbatim>\<open>UnionWith\<close>, \<^verbatim>\<open>IntersectWith\<close>,
  \<^verbatim>\<open>Subtract\<close>), in any number and with any order of the visits inside them, after each
  operation that returns, \<^verbatim>\<open>hasDeterminedMember\<close> is true if and only if some id is held
  with a nil expression.
\<close>

theorem hasDeterminedMember_consistent:
  assumes "reachable ms"
  shows "hasDeterminedMember ms = (\<exists>resourceID. membersByID ms resourceID = Some None)"
  using reachable_consistent [OF assms] by (simp add: consistent_def)

text \<open>The set of the first scenario is reachable, holds \<open>r2\<close> with nil, and has the flag up.\<close>

theorem hasDeterminedMember_consistent_witness:
  "\<exists>ms'. UnionWith [''r2'', ''r1''] union_example_set union_example_results = Inr ms'
     \<and> reachable ms'
     \<and> membersByID ms' ''r2'' = Some None
     \<and> hasDeterminedMember ms'"
proof -
  have o: "range_order [''r2'', ''r1''] union_example_results"
    by (auto simp: range_order_def union_example_results_def)
  obtain X where u: "UnionWith [''r2'', ''r1''] union_example_set union_example_results = Inr X"
    and m: "membersByID X ''r2'' = Some None"
    by (simp add: UnionWith_def union_example_results_def union_example_set_def
          AddDirectMember_def addMember_def NewMembershipSet_def wrapCaveat_def caveatOr_def
          caveat_C2_def)
  have "reachable union_example_set"
    unfolding union_example_set_def by (intro reachable_AddDirectMember reachable_New)
  then have r: "reachable X"
    using o u by (rule reachable_UnionWith)
  from hasDeterminedMember_consistent [OF r] m have "hasDeterminedMember X" by blast
  with u r m show ?thesis by blast
qed


section \<open>Conversion and round trip\<close>

lemma AsCheckResultsMap_range_lookup:
  "AsCheckResultsMap_range ks ms acc k =
     (if k \<in> set ks then
        (case membersByID ms k of
           None \<Rightarrow> acc k
         | Some c \<Rightarrow>
             Some (Some \<lparr>Membership =
                     (if c \<noteq> None then DispatchCheckResponse_CAVEATED_MEMBER
                      else DispatchCheckResponse_MEMBER),
                   Expression = c\<rparr>))
      else acc k)"
proof (induction ks arbitrary: acc)
  case Nil
  then show ?case by simp
next
  case (Cons a ks)
  show ?case
    by (cases "membersByID ms a"; cases "a = k")
       (simp_all add: Cons.IH Let_def split: option.split)
qed

lemma AsCheckResultsMap_lookup:
  assumes "range_order order (membersByID ms)"
  shows "AsCheckResultsMap order ms k =
     (case membersByID ms k of
        None \<Rightarrow> None
      | Some c \<Rightarrow>
          Some (Some \<lparr>Membership =
                  (if c \<noteq> None then DispatchCheckResponse_CAVEATED_MEMBER
                   else DispatchCheckResponse_MEMBER),
                Expression = c\<rparr>))"
proof -
  have "set order = dom (membersByID ms)"
    using assms by (simp add: range_order_def)
  then show ?thesis
    by (auto simp: AsCheckResultsMap_def AsCheckResultsMap_range_lookup split: option.split)
qed

text \<open>
  Claim C6. Converting a membership set with \<^verbatim>\<open>AsCheckResultsMap\<close> and taking the union of
  the empty set with the resulting map returns the set itself: the same ids, the same
  expression for each id (nil exactly where it was nil), the same flag. A membership set is
  one the public operations can build; the orders of the two visits are arbitrary. The last
  conjunct is the conversion: a \<open>MEMBER\<close> result without expression for an id held with nil, a
  \<open>CAVEATED_MEMBER\<close> result with the expression otherwise, and never a nil result.
\<close>

theorem AsCheckResultsMap_roundtrip:
  assumes "reachable S"
    and "range_order memberOrder (membersByID S)"
    and "range_order resultOrder (AsCheckResultsMap memberOrder S)"
  shows "UnionWith resultOrder NewMembershipSet (AsCheckResultsMap memberOrder S) = Inr S
       \<and> (\<forall>S'. UnionWith resultOrder NewMembershipSet (AsCheckResultsMap memberOrder S) =
                  Inr S' \<longrightarrow>
            dom (membersByID S') = dom (membersByID S)
          \<and> (\<forall>k. membersByID S' k = membersByID S k)
          \<and> hasDeterminedMember S' = hasDeterminedMember S)
       \<and> (\<forall>k. AsCheckResultsMap memberOrder S k =
            (case membersByID S k of
               None \<Rightarrow> None
             | Some None \<Rightarrow>
                 Some (Some \<lparr>Membership = DispatchCheckResponse_MEMBER, Expression = None\<rparr>)
             | Some (Some e) \<Rightarrow>
                 Some (Some \<lparr>Membership = DispatchCheckResponse_CAVEATED_MEMBER,
                              Expression = Some e\<rparr>)))"
proof -
  let ?R = "AsCheckResultsMap memberOrder S"
  note R = AsCheckResultsMap_lookup [OF assms(2)]
  have n: "\<forall>k. ?R k \<noteq> Some None"
    by (simp add: R split: option.split)
  obtain X where
    u: "UnionWith resultOrder NewMembershipSet ?R = Inr X" and
    m: "\<forall>k. membersByID X k =
        (case ?R k of
           Some (Some d) \<Rightarrow> Some (merge_rule (membersByID NewMembershipSet k) (Expression d))
         | _ \<Rightarrow> membersByID NewMembershipSet k)" and
    h: "hasDeterminedMember X =
       (hasDeterminedMember NewMembershipSet \<or>
        (\<exists>k d. ?R k = Some (Some d) \<and> Expression d = None \<and>
           membersByID NewMembershipSet k \<noteq> Some None))"
    using UnionWith_result [OF assms(3) n, of NewMembershipSet] by blast
  have mk: "membersByID X k = membersByID S k" for k
    by (simp add: m R NewMembershipSet_def merge_rule_def split: option.split)
  have "hasDeterminedMember X = (\<exists>k d. ?R k = Some (Some d) \<and> Expression d = None)"
    by (simp add: h NewMembershipSet_def)
  also have "\<dots> = (\<exists>k. membersByID S k = Some None)"
    by (auto simp: R split: option.splits)
  also have "\<dots> = hasDeterminedMember S"
    using reachable_consistent [OF assms(1)] by (simp add: consistent_def)
  finally have hx: "hasDeterminedMember X = hasDeterminedMember S" .
  have "membersByID X = membersByID S" using mk by (rule ext)
  with hx have "X = S" by simp
  with u have 1: "UnionWith resultOrder NewMembershipSet ?R = Inr S" by simp
  have 3: "\<forall>k. ?R k =
            (case membersByID S k of
               None \<Rightarrow> None
             | Some None \<Rightarrow>
                 Some (Some \<lparr>Membership = DispatchCheckResponse_MEMBER, Expression = None\<rparr>)
             | Some (Some e) \<Rightarrow>
                 Some (Some \<lparr>Membership = DispatchCheckResponse_CAVEATED_MEMBER,
                              Expression = Some e\<rparr>))"
    by (simp add: R split: option.split)
  from 1 3 show ?thesis by simp
qed

text \<open>The set \<open>{r1: C1, r2: determined}\<close>, built by two direct insertions, comes back.\<close>

theorem AsCheckResultsMap_roundtrip_witness:
  "reachable roundtrip_example_set
   \<and> range_order [''r1'', ''r2''] (membersByID roundtrip_example_set)
   \<and> range_order [''r2'', ''r1''] (AsCheckResultsMap [''r1'', ''r2''] roundtrip_example_set)
   \<and> UnionWith [''r2'', ''r1''] NewMembershipSet
        (AsCheckResultsMap [''r1'', ''r2''] roundtrip_example_set) = Inr roundtrip_example_set
   \<and> hasDeterminedMember roundtrip_example_set"
proof -
  have r: "reachable roundtrip_example_set"
    unfolding roundtrip_example_set_def by (intro reachable_AddDirectMember reachable_New)
  have m: "membersByID roundtrip_example_set =
      [''r1'' \<mapsto> Some (CaveatExpression_Caveat (ContextualizedCaveat ''C1'' [])), ''r2'' \<mapsto> None]"
    by (simp add: roundtrip_example_set_def AddDirectMember_def addMember_def
          NewMembershipSet_def wrapCaveat_def)
  have h: "hasDeterminedMember roundtrip_example_set"
    by (simp add: roundtrip_example_set_def AddDirectMember_def addMember_def
          NewMembershipSet_def wrapCaveat_def)
  have a: "range_order [''r1'', ''r2''] (membersByID roundtrip_example_set)"
    by (auto simp: range_order_def m)
  have b: "range_order [''r2'', ''r1'']
      (AsCheckResultsMap [''r1'', ''r2''] roundtrip_example_set)"
    by (auto simp: range_order_def AsCheckResultsMap_def m split: if_splits)
  from AsCheckResultsMap_roundtrip [OF r a b] r a b h show ?thesis by simp
qed


section \<open>The single-flight dispatcher: error paths and pass-through\<close>

lemma DispatchCheck_key_failure:
  "K ctx req = Inl e \<Longrightarrow>
   DispatchCheck K G D ctx req s =
     ((Some \<lparr>Metadata = Some \<lparr>DispatchCount = 1\<rparr>, Body = None\<rparr>,
       Some (status_Error codes_Internal ''unexpected DispatchCheck error'')), s)"
  by (simp add: DispatchCheck_def)

lemma DispatchCheck_group_result:
  "K ctx req = Inr key \<Longrightarrow>
   G ctx (hex_EncodeToString key) (\<lambda>innerCtx. D innerCtx req) (world s) = ((v, shared, err), w) \<Longrightarrow>
   DispatchCheck K G D ctx req s =
     ((if err \<noteq> None then Some \<lparr>Metadata = Some \<lparr>DispatchCount = 1\<rparr>, Body = None\<rparr> else v,
       err),
      s\<lparr>world := w,
        singleFlightCount :=
          counter_Inc (singleFlightCount s) (''DispatchCheck'', strconv_FormatBool shared)\<rparr>)"
  by (simp add: DispatchCheck_def Let_def)

lemma DispatchCheck_error_response:
  assumes "DispatchCheck K G D ctx req s = ((resp, Some e), s')"
  shows "resp = Some \<lparr>Metadata = Some \<lparr>DispatchCount = 1\<rparr>, Body = None\<rparr>"
proof (cases "K ctx req")
  case (Inl a)
  with assms show ?thesis by (simp add: DispatchCheck_key_failure)
next
  case (Inr key)
  obtain v shared err w where
    g: "G ctx (hex_EncodeToString key) (\<lambda>innerCtx. D innerCtx req) (world s) =
          ((v, shared, err), w)"
    by (metis prod_cases3 surj_pair)
  from assms show ?thesis
    using DispatchCheck_group_result [of K ctx req key G D s v shared err w, OF Inr g]
    by (auto split: if_splits)
qed

lemma DispatchExpand_key_failure:
  "K ctx req = Inl e \<Longrightarrow>
   DispatchExpand K G D ctx req s =
     ((Some \<lparr>Metadata = Some \<lparr>DispatchCount = 1\<rparr>, Body = None\<rparr>,
       Some (status_Error codes_Internal ''unexpected DispatchExpand error'')), s)"
  by (simp add: DispatchExpand_def)

lemma DispatchExpand_group_result:
  "K ctx req = Inr key \<Longrightarrow>
   G ctx (hex_EncodeToString key) (\<lambda>ictx. D ictx req) (world s) = ((v, shared, err), w) \<Longrightarrow>
   DispatchExpand K G D ctx req s =
     ((if err \<noteq> None then Some \<lparr>Metadata = Some \<lparr>DispatchCount = 1\<rparr>, Body = None\<rparr> else v,
       err),
      s\<lparr>world := w,
        singleFlightCount :=
          counter_Inc (singleFlightCount s) (''DispatchExpand'', strconv_FormatBool shared)\<rparr>)"
  by (simp add: DispatchExpand_def Let_def)

lemma DispatchExpand_error_response:
  assumes "DispatchExpand K G D ctx req s = ((resp, Some e), s')"
  shows "resp = Some \<lparr>Metadata = Some \<lparr>DispatchCount = 1\<rparr>, Body = None\<rparr>"
proof (cases "K ctx req")
  case (Inl a)
  with assms show ?thesis by (simp add: DispatchExpand_key_failure)
next
  case (Inr key)
  obtain v shared err w where
    g: "G ctx (hex_EncodeToString key) (\<lambda>ictx. D ictx req) (world s) =
          ((v, shared, err), w)"
    by (metis prod_cases3 surj_pair)
  from assms show ?thesis
    using DispatchExpand_group_result [of K ctx req key G D s v shared err w, OF Inr g]
    by (auto split: if_splits)
qed

text \<open>
  Claim C7. Whenever \<^verbatim>\<open>DispatchCheck\<close> or \<^verbatim>\<open>DispatchExpand\<close> returns an error, the response
  beside it is not nil and its metadata has dispatch count 1. When the key handler fails, the
  error is the internal status error, whatever the group and the delegate are, and the state
  is untouched: the group is not consulted and the counter not incremented. When the group
  hands back an error (the delegate's, when the group ran it), that error is returned beside
  the fresh response.
\<close>

theorem dispatch_error_carries_count:
  "(\<forall>resp e s'. DispatchCheck K G D ctx req s = ((resp, Some e), s') \<longrightarrow>
      (\<exists>r m. resp = Some r \<and> Metadata r = Some m \<and> DispatchCount m = 1))
   \<and> (\<forall>e G2 D2. K ctx req = Inl e \<longrightarrow>
        DispatchCheck K G2 D2 ctx req s =
          ((Some \<lparr>Metadata = Some \<lparr>DispatchCount = 1\<rparr>, Body = None\<rparr>,
            Some (status_Error codes_Internal ''unexpected DispatchCheck error'')), s))
   \<and> (\<forall>key v shared e w.
        K ctx req = Inr key \<and>
        G ctx (hex_EncodeToString key) (\<lambda>innerCtx. D innerCtx req) (world s) =
          ((v, shared, Some e), w) \<longrightarrow>
        fst (DispatchCheck K G D ctx req s) =
          (Some \<lparr>Metadata = Some \<lparr>DispatchCount = 1\<rparr>, Body = None\<rparr>, Some e))
   \<and> (\<forall>resp e s'. DispatchExpand K' G' D' ctx' req' s = ((resp, Some e), s') \<longrightarrow>
        (\<exists>r m. resp = Some r \<and> Metadata r = Some m \<and> DispatchCount m = 1))
   \<and> (\<forall>e G2 D2. K' ctx' req' = Inl e \<longrightarrow>
        DispatchExpand K' G2 D2 ctx' req' s =
          ((Some \<lparr>Metadata = Some \<lparr>DispatchCount = 1\<rparr>, Body = None\<rparr>,
            Some (status_Error codes_Internal ''unexpected DispatchExpand error'')), s))
   \<and> (\<forall>key v shared e w.
        K' ctx' req' = Inr key \<and>
        G' ctx' (hex_EncodeToString key) (\<lambda>ictx. D' ictx req') (world s) =
          ((v, shared, Some e), w) \<longrightarrow>
        fst (DispatchExpand K' G' D' ctx' req' s) =
          (Some \<lparr>Metadata = Some \<lparr>DispatchCount = 1\<rparr>, Body = None\<rparr>, Some e))"
proof -
  have 1: "\<forall>resp e s'. DispatchCheck K G D ctx req s = ((resp, Some e), s') \<longrightarrow>
      (\<exists>r m. resp = Some r \<and> Metadata r = Some m \<and> DispatchCount m = 1)"
    by (auto dest: DispatchCheck_error_response)
  have 2: "\<forall>e G2 D2. K ctx req = Inl e \<longrightarrow>
        DispatchCheck K G2 D2 ctx req s =
          ((Some \<lparr>Metadata = Some \<lparr>DispatchCount = 1\<rparr>, Body = None\<rparr>,
            Some (status_Error codes_Internal ''unexpected DispatchCheck error'')), s)"
    by (simp add: DispatchCheck_key_failure)
  have 3: "\<forall>key v shared e w.
        K ctx req = Inr key \<and>
        G ctx (hex_EncodeToString key) (\<lambda>innerCtx. D innerCtx req) (world s) =
          ((v, shared, Some e), w) \<longrightarrow>
        fst (DispatchCheck K G D ctx req s) =
          (Some \<lparr>Metadata = Some \<lparr>DispatchCount = 1\<rparr>, Body = None\<rparr>, Some e)"
    by (simp add: DispatchCheck_group_result)
  have 4: "\<forall>resp e s'. DispatchExpand K' G' D' ctx' req' s = ((resp, Some e), s') \<longrightarrow>
        (\<exists>r m. resp = Some r \<and> Metadata r = Some m \<and> DispatchCount m = 1)"
    by (auto dest: DispatchExpand_error_response)
  have 5: "\<forall>e G2 D2. K' ctx' req' = Inl e \<longrightarrow>
        DispatchExpand K' G2 D2 ctx' req' s =
          ((Some \<lparr>Metadata = Some \<lparr>DispatchCount = 1\<rparr>, Body = None\<rparr>,
            Some (status_Error codes_Internal ''unexpected DispatchExpand error'')), s)"
    by (simp add: DispatchExpand_key_failure)
  have 6: "\<forall>key v shared e w.
        K' ctx' req' = Inr key \<and>
        G' ctx' (hex_EncodeToString key) (\<lambda>ictx. D' ictx req') (world s) =
          ((v, shared, Some e), w) \<longrightarrow>
        fst (DispatchExpand K' G' D' ctx' req' s) =
          (Some \<lparr>Metadata = Some \<lparr>DispatchCount = 1\<rparr>, Body = None\<rparr>, Some e)"
    by (simp add: DispatchExpand_group_result)
  from 1 2 3 4 5 6 show ?thesis by blast
qed

text \<open>
  A key handler that fails, and a delegate that fails behind a group with nothing in flight.
\<close>

theorem dispatch_error_carries_count_witness:
  "failing_key () ''check'' = Inl (collaborator_error ''no key'')
   \<and> DispatchCheck failing_key
        (idle_group_Do :: (unit, CheckResultsMap, nat, string) group_Do)
        failing_delegate () ''check'' initial_state =
       ((Some \<lparr>Metadata = Some \<lparr>DispatchCount = 1\<rparr>, Body = None\<rparr>,
         Some (status_Error codes_Internal ''unexpected DispatchCheck error'')), initial_state)
   \<and> constant_key () ''check'' = Inr []
   \<and> fst (DispatchCheck constant_key
        (idle_group_Do :: (unit, CheckResultsMap, nat, string) group_Do)
        failing_delegate () ''check'' initial_state) =
       (Some \<lparr>Metadata = Some \<lparr>DispatchCount = 1\<rparr>, Body = None\<rparr>,
        Some (collaborator_error ''unavailable''))"
proof -
  let ?G = "idle_group_Do :: (unit, CheckResultsMap, nat, string) group_Do"
  let ?D = "failing_delegate :: (unit, string, CheckResultsMap, nat, string) unary_dispatch"
  have k: "failing_key () ''check'' = Inl (collaborator_error ''no key'')"
    by (simp add: failing_key_def)
  have a: "DispatchCheck failing_key ?G ?D () ''check'' initial_state =
       ((Some \<lparr>Metadata = Some \<lparr>DispatchCount = 1\<rparr>, Body = None\<rparr>,
         Some (status_Error codes_Internal ''unexpected DispatchCheck error'')), initial_state)"
    using k
    by (rule dispatch_error_carries_count
          [of failing_key ?G ?D "()" "''check''" initial_state,
           THEN conjunct2, THEN conjunct1, rule_format])
  have c: "constant_key () ''check'' = Inr []"
    by (simp add: constant_key_def)
  have g: "?G () (hex_EncodeToString []) (\<lambda>innerCtx. ?D innerCtx ''check'') (world initial_state) =
      ((None, False, Some (collaborator_error ''unavailable'')), Suc 0)"
    by (simp add: idle_group_Do_def failing_delegate_def initial_state_def)
  have b: "fst (DispatchCheck constant_key ?G ?D () ''check'' initial_state) =
       (Some \<lparr>Metadata = Some \<lparr>DispatchCount = 1\<rparr>, Body = None\<rparr>,
        Some (collaborator_error ''unavailable''))"
    using conjI [OF c g]
    by (rule dispatch_error_carries_count
          [of constant_key ?G ?D "()" "''check''" initial_state,
           THEN conjunct2, THEN conjunct2, THEN conjunct1, rule_format])
  from k a c b show ?thesis by simp
qed

text \<open>
  Claim C8. Each of the three streaming operations returns the error the delegate returns for
  the same request and stream, leaves the world as the delegate leaves it, and does not touch
  the counter: nothing is coalesced and nothing else happens.
\<close>

theorem streaming_pass_through:
  "fst (DispatchReachableResources D1 req1 stream1 s) = fst (D1 req1 stream1 (world s))
   \<and> world (snd (DispatchReachableResources D1 req1 stream1 s)) =
       snd (D1 req1 stream1 (world s))
   \<and> singleFlightCount (snd (DispatchReachableResources D1 req1 stream1 s)) =
       singleFlightCount s
   \<and> fst (DispatchLookupResources D2 req2 stream2 s) = fst (D2 req2 stream2 (world s))
   \<and> world (snd (DispatchLookupResources D2 req2 stream2 s)) =
       snd (D2 req2 stream2 (world s))
   \<and> singleFlightCount (snd (DispatchLookupResources D2 req2 stream2 s)) =
       singleFlightCount s
   \<and> fst (DispatchLookupSubjects D3 req3 stream3 s) = fst (D3 req3 stream3 (world s))
   \<and> world (snd (DispatchLookupSubjects D3 req3 stream3 s)) =
       snd (D3 req3 stream3 (world s))
   \<and> singleFlightCount (snd (DispatchLookupSubjects D3 req3 stream3 s)) =
       singleFlightCount s"
  by (simp add: DispatchReachableResources_def DispatchLookupResources_def
        DispatchLookupSubjects_def case_prod_beta)

text \<open>A delegate that counts its calls has been called once, and no counter has moved.\<close>

theorem streaming_pass_through_witness:
  "fst (DispatchReachableResources counting_stream_delegate ''req'' ''stream'' initial_state) =
     None
   \<and> world (snd (DispatchReachableResources counting_stream_delegate ''req'' ''stream''
        initial_state)) = 1
   \<and> singleFlightCount (snd (DispatchReachableResources counting_stream_delegate ''req''
        ''stream'' initial_state)) (''DispatchReachableResources'', ''false'') = 0"
proof -
  note t = streaming_pass_through
    [of counting_stream_delegate "''req''" "''stream''" initial_state]
  have a: "fst (DispatchReachableResources counting_stream_delegate ''req'' ''stream''
      initial_state) = None"
    unfolding t [THEN conjunct1] by (simp add: counting_stream_delegate_def)
  have b: "world (snd (DispatchReachableResources counting_stream_delegate ''req'' ''stream''
        initial_state)) = 1"
    unfolding t [THEN conjunct2, THEN conjunct1]
    by (simp add: counting_stream_delegate_def initial_state_def)
  have c: "singleFlightCount (snd (DispatchReachableResources counting_stream_delegate ''req''
        ''stream'' initial_state)) (''DispatchReachableResources'', ''false'') = 0"
    unfolding t [THEN conjunct2, THEN conjunct2, THEN conjunct1]
    by (simp add: initial_state_def)
  from a b c show ?thesis by simp
qed


section \<open>Further properties of the membership set and the dispatcher\<close>

text \<open>
  Absorption: once a resource id has been inserted without a caveat, the flag is up and any
  further insertion for that id, direct or through a relationship, changes nothing.
\<close>

theorem determined_member_absorbs:
  assumes "reachable ms"
  shows "hasDeterminedMember (AddDirectMember ms resourceID None)
       \<and> membersByID (AddDirectMember ms resourceID None) resourceID = Some None
       \<and> addMember (AddDirectMember ms resourceID None) resourceID caveatExpr =
           AddDirectMember ms resourceID None
       \<and> AddMemberViaRelationship (AddDirectMember ms resourceID None) resourceID expr parent =
           AddDirectMember ms resourceID None"
proof -
  let ?ms = "AddDirectMember ms resourceID None"
  have m: "membersByID ?ms resourceID = Some None"
    by (simp add: AddDirectMember_def addMember_members wrapCaveat_def merge_rule_def
          split: option.split)
  have "consistent ?ms"
    using reachable_consistent [OF assms]
    by (simp add: AddDirectMember_def consistent_addMember)
  with m have h: "hasDeterminedMember ?ms"
    unfolding consistent_def by blast
  have a: "addMember ?ms resourceID c = ?ms" for c
    using m by (simp add: addMember_def)
  from h m a show ?thesis by (simp add: AddMemberViaRelationship_def)
qed

text \<open>Inserting \<open>r1\<close> without a caveat into the empty set, then under \<open>C1\<close>.\<close>

theorem determined_member_absorbs_witness:
  "reachable NewMembershipSet
   \<and> hasDeterminedMember (AddDirectMember NewMembershipSet ''r1'' None)
   \<and> addMember (AddDirectMember NewMembershipSet ''r1'' None) ''r1'' (Some caveat_C1) =
       AddDirectMember NewMembershipSet ''r1'' None"
  using determined_member_absorbs [OF reachable_New, of "''r1''" "Some caveat_C1"] reachable_New
  by simp

lemma membershipSetFromMap_range_members:
  "distinct ks \<Longrightarrow>
   membersByID (membershipSetFromMap_range ks mp ms) k =
     (if k \<in> set ks then
        (case mp k of
           None \<Rightarrow> membersByID ms k
         | Some c \<Rightarrow> Some (merge_rule (membersByID ms k) c))
      else membersByID ms k)"
proof (induction ks arbitrary: ms)
  case Nil
  then show ?case by simp
next
  case (Cons a ks)
  then have d: "distinct ks" and a: "a \<notin> set ks" by simp_all
  show ?case
  proof (cases "mp a")
    case None
    with a show ?thesis by (cases "a = k") (simp_all add: Cons.IH [OF d])
  next
    case (Some c)
    with a show ?thesis
      by (cases "a = k") (auto simp: Cons.IH [OF d] addMember_members split: option.split)
  qed
qed

lemma consistent_membershipSetFromMap_range:
  "consistent ms \<Longrightarrow> consistent (membershipSetFromMap_range ks mp ms)"
proof (induction ks arbitrary: ms)
  case Nil
  then show ?case by simp
next
  case (Cons a ks)
  then show ?case
    by (cases "mp a") (simp_all add: consistent_addMember)
qed

text \<open>
  \<^verbatim>\<open>membershipSetFromMap\<close> builds, in whatever order it visits the map, the set that holds
  exactly that map, with the flag up exactly when the map has an id with a nil expression.
\<close>

theorem membershipSetFromMap_rebuilds:
  assumes "range_order order mp"
  shows "membersByID (membershipSetFromMap order mp) = mp
       \<and> hasDeterminedMember (membershipSetFromMap order mp) =
           (\<exists>resourceID. mp resourceID = Some None)"
proof -
  have d: "distinct order" and s: "set order = dom mp"
    using assms by (simp_all add: range_order_def)
  have m: "membersByID (membershipSetFromMap order mp) k = mp k" for k
  proof (cases "k \<in> set order")
    case True
    then show ?thesis
      by (auto simp: membershipSetFromMap_def membershipSetFromMap_range_members [OF d]
            NewMembershipSet_def merge_rule_def split: option.split)
  next
    case False
    then have "mp k = None" using s by auto
    with False show ?thesis
      by (simp add: membershipSetFromMap_def membershipSetFromMap_range_members [OF d]
            NewMembershipSet_def)
  qed
  then have e: "membersByID (membershipSetFromMap order mp) = mp" by (rule ext)
  have "consistent (membershipSetFromMap order mp)"
    unfolding membershipSetFromMap_def
    by (rule consistent_membershipSetFromMap_range [OF consistent_New])
  with e show ?thesis by (simp add: consistent_def)
qed

text \<open>The map \<open>{r1: C1, r2: nil}\<close>.\<close>

theorem membershipSetFromMap_rebuilds_witness:
  "range_order [''r2'', ''r1''] [''r1'' \<mapsto> Some caveat_C1, ''r2'' \<mapsto> None]
   \<and> membersByID (membershipSetFromMap [''r2'', ''r1'']
         [''r1'' \<mapsto> Some caveat_C1, ''r2'' \<mapsto> None]) =
       [''r1'' \<mapsto> Some caveat_C1, ''r2'' \<mapsto> None]
   \<and> hasDeterminedMember (membershipSetFromMap [''r2'', ''r1'']
         [''r1'' \<mapsto> Some caveat_C1, ''r2'' \<mapsto> None])"
proof -
  let ?mp = "[''r1'' \<mapsto> Some caveat_C1, ''r2'' \<mapsto> None]"
  have r: "range_order [''r2'', ''r1''] ?mp"
    by (auto simp: range_order_def)
  have "\<exists>resourceID. ?mp resourceID = Some None"
    by (intro exI [of _ "''r2''"]) simp
  with membershipSetFromMap_rebuilds [OF r] r show ?thesis by simp
qed

text \<open>
  Subtracting a set from itself: the ids held without a caveat disappear, every other id
  \<open>e\<close> is left under \<open>AND(e, NOT(e))\<close>, the flag is down, and the result is empty exactly when
  no id was held under a caveat.
\<close>

theorem self_subtraction:
  assumes "range_order order (membersByID ms)"
    and "range_order memberOrder (membersByID ms)"
  shows "\<exists>ms'. Subtract order ms (AsCheckResultsMap memberOrder ms) = Inr ms'
       \<and> (\<forall>k. membersByID ms' k =
            (case membersByID ms k of
               None \<Rightarrow> None
             | Some None \<Rightarrow> None
             | Some (Some e) \<Rightarrow>
                 Some (Some (CaveatExpression_Operation CaveatOperation_AND
                   [Some e, Some (CaveatExpression_Operation CaveatOperation_NOT [Some e])]))))
       \<and> \<not> hasDeterminedMember ms'
       \<and> IsEmpty ms' = (\<forall>k. membersByID ms k = None \<or> membersByID ms k = Some None)"
proof -
  let ?R = "AsCheckResultsMap memberOrder ms"
  note R = AsCheckResultsMap_lookup [OF assms(2)]
  have n: "\<forall>k. membersByID ms k \<noteq> None \<longrightarrow> ?R k \<noteq> Some None"
    by (simp add: R split: option.split)
  obtain ms' where
    r: "Subtract order ms ?R = Inr ms'" and
    m: "\<forall>k. membersByID ms' k =
          subtraction_rule (membersByID ms k) (Option.bind (?R k) id)" and
    h: "hasDeterminedMember ms' = (\<exists>k. membersByID ms k = Some None \<and> ?R k = None)"
    using Subtract_result [OF assms(1) n] by blast
  have m': "membersByID ms' k =
            (case membersByID ms k of
               None \<Rightarrow> None
             | Some None \<Rightarrow> None
             | Some (Some e) \<Rightarrow>
                 Some (Some (CaveatExpression_Operation CaveatOperation_AND
                   [Some e, Some (CaveatExpression_Operation CaveatOperation_NOT [Some e])])))"
    for k
  proof (cases "membersByID ms k")
    case None
    then show ?thesis using m by (simp add: subtraction_rule_def)
  next
    case (Some c)
    then have Rk: "?R k = Some (Some \<lparr>Membership =
                  (if c \<noteq> None then DispatchCheckResponse_CAVEATED_MEMBER
                   else DispatchCheckResponse_MEMBER),
                Expression = c\<rparr>)"
      by (simp add: R)
    show ?thesis
    proof (cases c)
      case None
      with Some Rk show ?thesis using m by (simp add: subtraction_rule_def)
    next
      case (Some e)
      with \<open>membersByID ms k = Some c\<close> Rk show ?thesis
        using m by (simp add: subtraction_rule_def invert_def)
    qed
  qed
  have "\<And>k. membersByID ms k = Some None \<Longrightarrow> ?R k \<noteq> None"
    by (simp add: R)
  with h have h': "\<not> hasDeterminedMember ms'"
    by blast
  have "(\<forall>k. membersByID ms' k = None) =
        (\<forall>k. membersByID ms k = None \<or> membersByID ms k = Some None)"
  proof (intro iffI allI)
    fix k
    assume a: "\<forall>k. membersByID ms' k = None"
    show "membersByID ms k = None \<or> membersByID ms k = Some None"
      using a [rule_format, of k] m' [of k] by (simp split: option.splits)
  next
    fix k
    assume a: "\<forall>k. membersByID ms k = None \<or> membersByID ms k = Some None"
    show "membersByID ms' k = None"
      using a [rule_format, of k] m' [of k] by auto
  qed
  then have e: "IsEmpty ms' = (\<forall>k. membersByID ms k = None \<or> membersByID ms k = Some None)"
    by (simp add: IsEmpty_def fun_eq_iff)
  from r m' h' e show ?thesis by blast
qed

text \<open>The set \<open>{r1: C1, r2, r3, r4: determined}\<close> minus itself.\<close>

theorem self_subtraction_witness:
  "range_order [''r1'', ''r2'', ''r3'', ''r4''] (membersByID subtract_example_set)
   \<and> (\<exists>ms'. Subtract [''r1'', ''r2'', ''r3'', ''r4''] subtract_example_set
               (AsCheckResultsMap [''r1'', ''r2'', ''r3'', ''r4''] subtract_example_set) = Inr ms'
        \<and> membersByID ms' ''r1'' =
            Some (Some (CaveatExpression_Operation CaveatOperation_AND
              [Some caveat_C1,
               Some (CaveatExpression_Operation CaveatOperation_NOT [Some caveat_C1])]))
        \<and> membersByID ms' ''r2'' = None
        \<and> \<not> hasDeterminedMember ms')"
proof -
  have a: "range_order [''r1'', ''r2'', ''r3'', ''r4''] (membersByID subtract_example_set)"
    by (auto simp: range_order_def subtract_example_set_def)
  have m1: "membersByID subtract_example_set ''r1'' = Some (Some caveat_C1)"
    and m2: "membersByID subtract_example_set ''r2'' = Some None"
    by (simp_all add: subtract_example_set_def)
  from self_subtraction [OF a a]
  obtain ms' where
    r: "Subtract [''r1'', ''r2'', ''r3'', ''r4''] subtract_example_set
          (AsCheckResultsMap [''r1'', ''r2'', ''r3'', ''r4''] subtract_example_set) = Inr ms'" and
    m: "\<forall>k. membersByID ms' k =
            (case membersByID subtract_example_set k of
               None \<Rightarrow> None
             | Some None \<Rightarrow> None
             | Some (Some e) \<Rightarrow>
                 Some (Some (CaveatExpression_Operation CaveatOperation_AND
                   [Some e, Some (CaveatExpression_Operation CaveatOperation_NOT [Some e])])))" and
    h: "\<not> hasDeterminedMember ms'"
    by blast
  have k1: "membersByID ms' ''r1'' =
            Some (Some (CaveatExpression_Operation CaveatOperation_AND
              [Some caveat_C1,
               Some (CaveatExpression_Operation CaveatOperation_NOT [Some caveat_C1])]))"
    using m [rule_format, of "''r1''"] by (simp add: m1)
  have k2: "membersByID ms' ''r2'' = None"
    using m [rule_format, of "''r2''"] by (simp add: m2)
  from a r k1 k2 h show ?thesis by blast
qed

text \<open>
  When the key handler succeeds and the group hands back a value without an error,
  \<^verbatim>\<open>DispatchCheck\<close> and \<^verbatim>\<open>DispatchExpand\<close> return that value unchanged and increment the
  counter of their method under the label of whether the result was shared, by one.
\<close>

theorem dispatch_success_passes_value:
  assumes "K ctx req = Inr key"
    and "G ctx (hex_EncodeToString key) (\<lambda>innerCtx. D innerCtx req) (world s) =
           ((v, shared, None), w)"
    and "K' ctx' req' = Inr key'"
    and "G' ctx' (hex_EncodeToString key') (\<lambda>ictx. D' ictx req') (world s) =
           ((v', shared', None), w')"
  shows "DispatchCheck K G D ctx req s =
           ((v, None),
            s\<lparr>world := w,
              singleFlightCount :=
                (singleFlightCount s)
                  ((''DispatchCheck'', if shared then ''true'' else ''false'') :=
                     singleFlightCount s
                       (''DispatchCheck'', if shared then ''true'' else ''false'') + 1)\<rparr>)
       \<and> DispatchExpand K' G' D' ctx' req' s =
           ((v', None),
            s\<lparr>world := w',
              singleFlightCount :=
                (singleFlightCount s)
                  ((''DispatchExpand'', if shared' then ''true'' else ''false'') :=
                     singleFlightCount s
                       (''DispatchExpand'', if shared' then ''true'' else ''false'') + 1)\<rparr>)"
  using DispatchCheck_group_result [of K ctx req key G D s v shared None w, OF assms(1,2)]
    DispatchExpand_group_result [of K' ctx' req' key' G' D' s v' shared' None w', OF assms(3,4)]
  by (simp add: counter_Inc_def strconv_FormatBool_def)

text \<open>A delegate that succeeds behind a group with nothing in flight.\<close>

theorem dispatch_success_passes_value_witness:
  "constant_key () ''check'' = Inr []
   \<and> fst (DispatchCheck constant_key
        (idle_group_Do :: (unit, CheckResultsMap, nat, string) group_Do)
        succeeding_delegate () ''check'' initial_state) =
       (Some \<lparr>Metadata = Some \<lparr>DispatchCount = 3\<rparr>, Body = None\<rparr>, None)
   \<and> world (snd (DispatchCheck constant_key
        (idle_group_Do :: (unit, CheckResultsMap, nat, string) group_Do)
        succeeding_delegate () ''check'' initial_state)) = 1
   \<and> singleFlightCount (snd (DispatchCheck constant_key
        (idle_group_Do :: (unit, CheckResultsMap, nat, string) group_Do)
        succeeding_delegate () ''check'' initial_state)) (''DispatchCheck'', ''false'') = 1"
proof -
  let ?G = "idle_group_Do :: (unit, CheckResultsMap, nat, string) group_Do"
  let ?D = "succeeding_delegate :: (unit, string, CheckResultsMap, nat, string) unary_dispatch"
  have c: "constant_key () ''check'' = Inr []"
    by (simp add: constant_key_def)
  have g: "?G () (hex_EncodeToString []) (\<lambda>innerCtx. ?D innerCtx ''check'') (world initial_state) =
      ((Some \<lparr>Metadata = Some \<lparr>DispatchCount = 3\<rparr>, Body = None\<rparr>, False, None), Suc 0)"
    by (simp add: idle_group_Do_def succeeding_delegate_def initial_state_def)
  note t = dispatch_success_passes_value
    [where K = constant_key and ctx = "()" and req = "''check''" and key = "[]" and G = ?G
       and D = ?D and s = initial_state and K' = constant_key and ctx' = "()"
       and req' = "''check''" and key' = "[]" and G' = ?G and D' = ?D,
     OF c g c g, THEN conjunct1]
  show ?thesis
    unfolding t using c by (simp add: initial_state_def)
qed

end
